theory Spec2Isabelle
  imports Complex_Main "HOL-Library.Word" "HOL-Library.Multiset" "HOL-Library.Signed_Division"
begin

section \<open>Terminal types\<close>

text \<open>
  Modelled from the spec: the enumeration \<^verbatim>\<open>RLGC::TerminalType\<close> is declared in a header
  that is not part of the sources at hand; the spec fixes its values as
  \<^verbatim>\<open>NOT_TERMINAL=0 / NORMAL=1 / TRUNCATED=2\<close>. The code stores a terminal type in a
  \<^verbatim>\<open>uint8_t\<close> (\<^verbatim>\<open>EnvSet.cpp\<close>) or an \<^verbatim>\<open>int8_t\<close> (\<^verbatim>\<open>GAE.cpp\<close>, \<^verbatim>\<open>Learner.cpp\<close>) and only
  ever compares it for equality, so a terminal type is an 8-bit word.
\<close>

type_synonym terminal = "8 word"

definition NOT_TERMINAL :: terminal where "NOT_TERMINAL = 0"
definition NORMAL :: terminal where "NORMAL = 1"
definition TRUNCATED :: terminal where "TRUNCATED = 2"

section \<open>EnvSet::StepSecondHalf: the terminal type of an arena\<close>

text \<open>
  A terminal condition is a plug-in object; what the loop of \<^verbatim>\<open>StepSecondHalf\<close>
  (\<^verbatim>\<open>EnvSet.cpp\<close>, lines 167-180) observes of it on the current game state is the result
  of \<^verbatim>\<open>cond->IsTerminal(gs)\<close> and, when that is true, of \<^verbatim>\<open>cond->IsTruncation()\<close>.
\<close>

record TerminalCondition =
  IsTerminal :: bool
  IsTruncation :: bool

text \<open>One iteration of \<^verbatim>\<open>for (auto cond : terminalConditions[arenaIdx])\<close>.\<close>

definition update_terminal :: "terminal \<Rightarrow> TerminalCondition \<Rightarrow> terminal" where
  "update_terminal terminalType cond =
     (if IsTerminal cond then
        (let curTerminalType = (if IsTruncation cond then TRUNCATED else NORMAL) in
           if terminalType = NOT_TERMINAL then curTerminalType
           else if curTerminalType = NORMAL then curTerminalType
           else terminalType)
      else terminalType)"

fun terminal_loop :: "terminal \<Rightarrow> TerminalCondition list \<Rightarrow> terminal" where
  "terminal_loop terminalType [] = terminalType"
| "terminal_loop terminalType (cond # conds) =
     terminal_loop (update_terminal terminalType cond) conds"

text \<open>
  \<^verbatim>\<open>uint8_t terminalType = TerminalType::NOT_TERMINAL; for (...) {...}
  state.terminals[arenaIdx] = terminalType;\<close>
\<close>

definition StepSecondHalf_terminal :: "TerminalCondition list \<Rightarrow> terminal" where
  "StepSecondHalf_terminal conds = terminal_loop NOT_TERMINAL conds"

definition fires_normal :: "TerminalCondition \<Rightarrow> bool" where
  "fires_normal cond \<longleftrightarrow> IsTerminal cond \<and> \<not> IsTruncation cond"

definition fires_truncated :: "TerminalCondition \<Rightarrow> bool" where
  "fires_truncated cond \<longleftrightarrow> IsTerminal cond \<and> IsTruncation cond"

section \<open>Failures\<close>

text \<open>
  Every way in which the modelled C++ leaves a function without returning its result is a
  value: a division by zero, the \<^verbatim>\<open>std::length_error\<close> of \<^verbatim>\<open>vector::reserve\<close>, a fatal
  error, and a read or write outside a buffer.
\<close>

text \<open>
  Modelled from the spec: the macros \<^verbatim>\<open>RG_ERR_CLOSE\<close> and \<^verbatim>\<open>RG_ASSERT\<close> are defined in a
  header that is not part of the sources at hand. By the spec a fatal error, such as a failed
  assertion on the configuration or on the sizes of the tables, or a truncation count
  mismatch, terminates the process with a diagnostic and is never retried; it is the
  failure \<^verbatim>\<open>FatalError\<close>, wherever in the process it is raised.
\<close>

datatype failure = DivisionByZero | LengthError | FatalError | OutOfBounds

section \<open>Machine integers\<close>

text \<open>
  Where the range of a machine integer matters, a value of the C++ type \<^verbatim>\<open>int\<close> (32 bits) or
  \<^verbatim>\<open>int64_t\<close> is an integer of the model and the result of an addition, subtraction,
  multiplication or division of the code is brought back into the range of its type by
  \<^verbatim>\<open>to_int32\<close> or \<^verbatim>\<open>to_int64\<close>. An overflow of a signed type is undefined in C++; the
  model takes the two's complement wrap-around of the machines the program is built for.
\<close>

definition to_int32 :: "int \<Rightarrow> int" where
  "to_int32 x = (x + 2 ^ 31) mod 2 ^ 32 - 2 ^ 31"

definition to_int64 :: "int \<Rightarrow> int" where
  "to_int64 x = (x + 2 ^ 63) mod 2 ^ 64 - 2 ^ 63"

section \<open>ThreadPool: batched jobs\<close>

text \<open>
  \<^verbatim>\<open>ThreadPool.h\<close>. A job handed to \<^verbatim>\<open>StartJobAsync\<close> is either \<^verbatim>\<open>func(i)\<close> for one index
  (\<^verbatim>\<open>StartBatchedJobs\<close>) or the closure \<^verbatim>\<open>[func, start, end]\<close> of the chunked variant, which
  runs \<^verbatim>\<open>for (int i = start; i < end; i++) func(i)\<close>. The workers take the jobs in an order
  the code does not fix; what a job calls, and hence the multiset of all calls, does not
  depend on that order. The \<^verbatim>\<open>int\<close> arithmetic of the chunked variant wraps around
  (\<^verbatim>\<open>to_int32\<close>); a loop counter below its bound (\<^verbatim>\<open>i < end\<close>, \<^verbatim>\<open>i < num\<close>,
  \<^verbatim>\<open>t < _numThreads\<close>) is incremented without leaving the range of \<^verbatim>\<open>int\<close>.
\<close>

datatype job = Single int | Chunk int int

function range_loop :: "int \<Rightarrow> int \<Rightarrow> int list" where
  "range_loop i end = (if i < end then i # range_loop (i + 1) end else [])"
  by pat_completeness auto
termination
  by (relation "measure (\<lambda>(i, end). nat (end - i))") auto

text \<open>The arguments with which a job calls \<^verbatim>\<open>func\<close>, in the order of the calls.\<close>

fun job_calls :: "job \<Rightarrow> int list" where
  "job_calls (Single i) = [i]"
| "job_calls (Chunk start end) = range_loop start end"

text \<open>
  What a call of \<^verbatim>\<open>StartBatchedJobs\<close> or \<^verbatim>\<open>StartBatchedJobsChunked\<close> does to the pool: the
  jobs it enqueues, in order, and whether it then blocks in \<^verbatim>\<open>WaitUntilDone()\<close>.
\<close>

record batch_result =
  enqueued :: "job list"
  waited :: bool

text \<open>\<^verbatim>\<open>for (int i = 0; i < num; i++) StartJobAsync(func, i);\<close>\<close>

function batched_loop :: "int \<Rightarrow> int \<Rightarrow> job list" where
  "batched_loop i num = (if i < num then Single i # batched_loop (i + 1) num else [])"
  by pat_completeness auto
termination
  by (relation "measure (\<lambda>(i, num). nat (num - i))") auto

definition StartBatchedJobs :: "int \<Rightarrow> bool \<Rightarrow> batch_result" where
  "StartBatchedJobs num async = \<lparr>enqueued = batched_loop 0 num, waited = \<not> async\<rparr>"

text \<open>
  \<^verbatim>\<open>for (int t = 0; t < _numThreads; t++) { int start = t * chunkSize;
  int end = std::min(start + chunkSize, num); if (start >= num) break; StartJobAsync(...); }\<close>
\<close>

function chunk_loop :: "int \<Rightarrow> int \<Rightarrow> int \<Rightarrow> int \<Rightarrow> job list" where
  "chunk_loop t numThreads chunkSize num =
     (if t < numThreads then
        (let start = to_int32 (t * chunkSize);
             end = min (to_int32 (start + chunkSize)) num
         in if start \<ge> num then []
            else Chunk start end # chunk_loop (t + 1) numThreads chunkSize num)
      else [])"
  by pat_completeness auto
termination
  by (relation "measure (\<lambda>(t, numThreads, chunkSize, num). nat (numThreads - t))") auto

text \<open>
  \<^verbatim>\<open>numThreads\<close> is the value of the field \<^verbatim>\<open>_numThreads\<close>, an \<^verbatim>\<open>int\<close>. The early
  \<^verbatim>\<open>if (num <= 0) return;\<close> neither enqueues nor waits. \<^verbatim>\<open>num + _numThreads - 1\<close> is
  computed from left to right, and the division is the truncating one of C++. With
  \<^verbatim>\<open>_numThreads = 0\<close> and \<^verbatim>\<open>num > 0\<close> the chunk size would be a division by zero.
\<close>

definition StartBatchedJobsChunked :: "int \<Rightarrow> int \<Rightarrow> bool \<Rightarrow> failure + batch_result" where
  "StartBatchedJobsChunked numThreads num async =
     (if num \<le> 0 then Inr \<lparr>enqueued = [], waited = False\<rparr>
      else if num \<le> to_int32 (numThreads * 2) then Inr (StartBatchedJobs num async)
      else if numThreads = 0 then Inl DivisionByZero
      else
        (let chunkSize = to_int32 (to_int32 (to_int32 (num + numThreads) - 1) sdiv numThreads)
         in Inr \<lparr>enqueued = chunk_loop 0 numThreads chunkSize num, waited = \<not> async\<rparr>))"

text \<open>All calls of \<^verbatim>\<open>func\<close> made by the enqueued jobs, job after job.\<close>

definition invocations :: "batch_result \<Rightarrow> int list" where
  "invocations r = concat (map job_calls (enqueued r))"

section \<open>ExperienceBuffer: shuffled batches\<close>

text \<open>
  \<^verbatim>\<open>ExperienceBuffer.cpp\<close>. Of the tensors in \<^verbatim>\<open>data\<close> the two functions below read only
  whether \<^verbatim>\<open>data.states\<close> and \<^verbatim>\<open>data.actions\<close> are defined and how many rows they have
  (\<^verbatim>\<open>size(0)\<close>); \<^verbatim>\<open>None\<close> is an undefined tensor. \<^verbatim>\<open>shuffledIndices\<close> is the index vector
  the buffer keeps between calls. The \<^verbatim>\<open>int64_t\<close> arithmetic of \<^verbatim>\<open>GetAllBatchesShuffled\<close>
  wraps around (\<^verbatim>\<open>to_int64\<close>).
\<close>

record ExperienceBuffer =
  data_states :: "int option"
  data_actions :: "int option"
  shuffledIndices :: "int list"

text \<open>
  \<^verbatim>\<open>int64_t rowLimit = data.states.size(0);
  if (data.actions.defined()) rowLimit = std::min(rowLimit, data.actions.size(0));\<close>
  (the same computation gives \<^verbatim>\<open>expSize\<close> in \<^verbatim>\<open>GetAllBatchesShuffled\<close>).
\<close>

definition rowLimit_of :: "int \<Rightarrow> int option \<Rightarrow> int" where
  "rowLimit_of statesRows acts = (case acts of Some a \<Rightarrow> min statesRows a | None \<Rightarrow> statesRows)"

text \<open>
  \<^verbatim>\<open>_GetSamples(indices, size)\<close>: every defined tensor of the result is
  \<^verbatim>\<open>index_select(0, tIndices)\<close> of the buffer's tensor, so a batch has one row per entry of
  \<^verbatim>\<open>tIndices\<close>; the model returns \<^verbatim>\<open>tIndices\<close>, and the empty list for the empty
  \<^verbatim>\<open>ExperienceTensors{}\<close>. The scan for \<^verbatim>\<open>maxIdx\<close> starts at 0 and its early exit leaves the
  test \<^verbatim>\<open>maxIdx >= rowLimit\<close> unchanged. The range check that \<^verbatim>\<open>index_select\<close> makes on
  each tensor is outside the model: the tensors of \<^verbatim>\<open>data\<close> are filled together, and the
  indices are the buffer's own, clamped to \<^verbatim>\<open>rowLimit - 1\<close>.
\<close>

definition GetSamples :: "ExperienceBuffer \<Rightarrow> int list \<Rightarrow> int \<Rightarrow> int list" where
  "GetSamples buf indices n =
     (case data_states buf of
        None \<Rightarrow> []
      | Some statesRows \<Rightarrow>
          if n = 0 then []
          else
            (let rowLimit = rowLimit_of statesRows (data_actions buf) in
             if rowLimit \<le> 0 then []
             else
               (let idxs = take (nat n) indices;
                    maxIdx = fold max idxs 0
                in if maxIdx \<ge> rowLimit then map (\<lambda>i. min i (rowLimit - 1)) idxs
                   else idxs)))"

text \<open>
  The loop \<^verbatim>\<open>for (int64_t startIdx = 0; startIdx < expSize; startIdx += batchSize)\<close> of
  \<^verbatim>\<open>GetAllBatchesShuffled\<close>, with its three \<^verbatim>\<open>break\<close>s; it yields the pairs
  \<^verbatim>\<open>(startIdx, curBatchSize)\<close> passed to \<^verbatim>\<open>_GetSamples\<close>. The call
  \<^verbatim>\<open>_GetSamples(shuffledIndices.data() + startIdx, curBatchSize)\<close> reads \<^verbatim>\<open>curBatchSize\<close>
  entries of the index vector, which has \<^verbatim>\<open>expSize\<close> entries, from \<^verbatim>\<open>startIdx\<close> on; a read
  outside the vector, which only a wrapped \<^verbatim>\<open>startIdx\<close> or \<^verbatim>\<open>curBatchSize\<close> can ask for, is
  the failure \<^verbatim>\<open>OutOfBounds\<close>. The loop ends for all arguments: \<^verbatim>\<open>startIdx\<close> grows from one
  round to the next until it wraps below zero, and the round after that breaks or fails.
\<close>

function batch_loop :: "int \<Rightarrow> int \<Rightarrow> int \<Rightarrow> bool \<Rightarrow> failure + (int \<times> int) list" where
  "batch_loop startIdx expSize batchSize overbatching =
     (if startIdx < expSize then
        (let endIdx0 = to_int64 (startIdx + batchSize);
             endIdx = (if to_int64 (endIdx0 + batchSize) > expSize \<and> overbatching
                       then expSize else endIdx0)
         in if endIdx > expSize then Inr []
            else
              (let curBatchSize = to_int64 (endIdx - startIdx)
               in if curBatchSize \<le> 0 then Inr []
                  else if startIdx < 0 \<or> expSize < startIdx + curBatchSize then Inl OutOfBounds
                  else if endIdx = expSize then Inr [(startIdx, curBatchSize)]
                  else
                    (case batch_loop (to_int64 (startIdx + batchSize)) expSize batchSize
                            overbatching of
                       Inl e \<Rightarrow> Inl e
                     | Inr rest \<Rightarrow> Inr ((startIdx, curBatchSize) # rest))))
      else Inr [])"
  by pat_completeness auto
termination
proof (relation "measure (\<lambda>(startIdx, expSize, batchSize, overbatching).
          nat (if startIdx < 0 then 0
               else if startIdx < 2 ^ 63 then 2 ^ 63 - startIdx else 2 ^ 63 + 1))")
  show "wf (measure (\<lambda>(startIdx, expSize, batchSize, overbatching).
          nat (if startIdx < 0 then 0
               else if startIdx < 2 ^ 63 then 2 ^ 63 - startIdx else 2 ^ 63 + 1)))"
    by simp
next
  fix startIdx expSize batchSize :: int and overbatching :: bool and x xa xb
  assume a: "startIdx < expSize" "x = to_int64 (startIdx + batchSize)"
    "xa = (if expSize < to_int64 (x + batchSize) \<and> overbatching then expSize else x)"
    "\<not> expSize < xa" "xb = to_int64 (xa - startIdx)" "\<not> xb \<le> 0"
    "\<not> (startIdx < 0 \<or> expSize < startIdx + xb)" "xa \<noteq> expSize"
  have xa: "xa = x" using a(3,8) by (simp split: if_splits)
  have r: "- (2 ^ 63) \<le> x" "x < 2 ^ 63" using a(2) by (simp_all add: to_int64_def)
  have s0: "0 \<le> startIdx" using a(7) by simp
  define m where
    "m = (\<lambda>s::int. if s < 0 then 0 else if s < 2 ^ 63 then 2 ^ 63 - s else 2 ^ 63 + 1)"
  have "m x < m startIdx \<and> 0 < m startIdx"
  proof (cases "startIdx < 2 ^ 63")
    case False
    then show ?thesis using r s0 by (simp add: m_def)
  next
    case True
    show ?thesis
    proof (cases "x < 0")
      case True
      then show ?thesis using \<open>startIdx < 2 ^ 63\<close> s0 by (simp add: m_def)
    next
      case False
      then have "to_int64 (x - startIdx) = x - startIdx"
        using r s0 True by (simp add: to_int64_def)
      then have "startIdx < x" using a(5,6) xa by simp
      then show ?thesis using r s0 True False by (simp add: m_def)
    qed
  qed
  then have "nat (m (to_int64 (startIdx + batchSize))) < nat (m startIdx)"
    using a(2) by (simp add: zless_nat_conj)
  then show "((to_int64 (startIdx + batchSize), expSize, batchSize, overbatching),
              startIdx, expSize, batchSize, overbatching)
        \<in> measure (\<lambda>(startIdx, expSize, batchSize, overbatching).
          nat (if startIdx < 0 then 0
               else if startIdx < 2 ^ 63 then 2 ^ 63 - startIdx else 2 ^ 63 + 1))"
    by (simp add: m_def)
qed


text \<open>
  \<^verbatim>\<open>GetAllBatchesShuffled(batchSize, overbatching)\<close>. The parameter \<^verbatim>\<open>shuffle\<close> stands for
  \<^verbatim>\<open>std::shuffle(shuffledIndices.begin(), shuffledIndices.end(), rng)\<close> at the current state
  of the buffer's random engine. \<^verbatim>\<open>expSize / batchSize\<close> and \<^verbatim>\<open>expSize % batchSize\<close> are the
  truncating C++ operations; \<^verbatim>\<open>result.reserve(numBatches)\<close> throws for a negative
  \<^verbatim>\<open>numBatches\<close> (converted to a \<^verbatim>\<open>size_t\<close> beyond \<^verbatim>\<open>max_size()\<close>). The result is the list
  of batches and the buffer with its new index vector.
\<close>

definition GetAllBatchesShuffled ::
  "(int list \<Rightarrow> int list) \<Rightarrow> ExperienceBuffer \<Rightarrow> int \<Rightarrow> bool \<Rightarrow>
     failure + (int list list \<times> ExperienceBuffer)" where
  "GetAllBatchesShuffled shuffle buf batchSize overbatching =
     (case data_states buf of
        None \<Rightarrow> Inr ([], buf)
      | Some statesRows \<Rightarrow>
          if statesRows \<le> 0 then Inr ([], buf)
          else
            (let expSize = rowLimit_of statesRows (data_actions buf) in
             if expSize \<le> 0 then Inr ([], buf)
             else
               (let indices0 = (if length (shuffledIndices buf) \<noteq> nat expSize
                                then [0..expSize - 1] else shuffledIndices buf);
                    indices = shuffle indices0;
                    buf' = buf\<lparr>shuffledIndices := indices\<rparr>
                in if batchSize = 0 then Inl DivisionByZero
                   else
                     (let numBatches0 = to_int64 (expSize sdiv batchSize);
                          numBatches1 = (if overbatching \<and> expSize smod batchSize > 0
                                         then to_int64 (numBatches0 + 1) else numBatches0);
                          numBatches = (if numBatches1 = 0 then 1 else numBatches1)
                      in if numBatches < 0 then Inl LengthError
                         else
                           (case batch_loop 0 expSize batchSize overbatching of
                              Inl e \<Rightarrow> Inl e
                            | Inr ranges \<Rightarrow>
                                Inr (map (\<lambda>(startIdx, curBatchSize).
                                            GetSamples buf' (drop (nat startIdx) indices)
                                              curBatchSize)
                                       ranges,
                                     buf'))))))"

section \<open>GAE::Compute\<close>

text \<open>
  \<^verbatim>\<open>GAE.cpp\<close>. The tensors are lists; the \<^verbatim>\<open>float\<close> arithmetic of the code is modelled by
  exact arithmetic on the reals (no rounding, no infinities, no NaN). \<^verbatim>\<open>truncValPreds\<close> is
  \<^verbatim>\<open>None\<close> for an undefined tensor. The four outputs of \<^verbatim>\<open>Compute\<close> are one record.
\<close>

record GAE_output =
  outAdvantages :: "real list"
  outTargetValues :: "real list"
  outReturns :: "real list"
  outRewClipPortion :: real

text \<open>
  Modelled from the spec: the macro \<^verbatim>\<open>RS_CLAMP\<close> comes from a header of the simulation
  engine that is not part of the sources at hand; the spec describes its use here as the
  clamp of the normalized reward to \<^verbatim>\<open>[-clipRange, clipRange]\<close>.
\<close>

definition RS_CLAMP :: "real \<Rightarrow> real \<Rightarrow> real \<Rightarrow> real" where
  "RS_CLAMP val lo hi = min (max val lo) hi"

text \<open>
  Pass 1: \<^verbatim>\<open>for (int i = 0; i < numReturns; i++)
  if (_terminals[i] == TRUNCATED) truncStepIndices.push_back(i);\<close>
\<close>

definition truncStepIndices_of :: "terminal list \<Rightarrow> nat \<Rightarrow> nat list" where
  "truncStepIndices_of terminals numReturns =
     filter (\<lambda>i. terminals ! i = TRUNCATED) [0..<numReturns]"

text \<open>
  The search \<^verbatim>\<open>for (size_t ti = 0; ti < truncStepIndices.size(); ti++)
  if (truncStepIndices[ti] == step) { tidx = ti; break; }\<close> starting from \<^verbatim>\<open>tidx = -1\<close>.
\<close>

fun find_tidx :: "nat list \<Rightarrow> nat \<Rightarrow> nat \<Rightarrow> int" where
  "find_tidx [] step ti = -1"
| "find_tidx (x # xs) step ti = (if x = step then int ti else find_tidx xs step (ti + 1))"

text \<open>Pass 2, the two values computed for a step.\<close>

definition notDoneNotTrunc_of :: "terminal \<Rightarrow> real" where
  "notDoneNotTrunc_of terminal =
     (let done = (if terminal = NORMAL then 1 else 0);
          trunc = (if terminal = TRUNCATED then 1 else 0)
      in (1 - done) * (1 - trunc))"

definition nextValPred_of ::
  "terminal list \<Rightarrow> real list \<Rightarrow> real list option \<Rightarrow> nat list \<Rightarrow> nat \<Rightarrow> nat \<Rightarrow> real" where
  "nextValPred_of terminals valPreds truncValPreds truncStepIndices numReturns step =
     (let terminal = terminals ! step in
      if terminal = NORMAL then 0
      else if terminal = TRUNCATED \<and> truncValPreds \<noteq> None then
        (let tidx = find_tidx truncStepIndices step 0;
             numTruncs = int (length (the truncValPreds))
         in if tidx \<ge> 0 \<and> tidx < numTruncs then the truncValPreds ! nat tidx else 0)
      else if int step < int numReturns - 1 then valPreds ! (step + 1)
      else 0)"

text \<open>\<^verbatim>\<open>if (shouldClip) n = RS_CLAMP(n, -clipRange, clipRange);\<close>\<close>

definition clip_if :: "bool \<Rightarrow> real \<Rightarrow> real \<Rightarrow> real" where
  "clip_if shouldClip clipRange n = (if shouldClip then RS_CLAMP n (- clipRange) clipRange else n)"

text \<open>
  Pass 3. The accumulator is \<^verbatim>\<open>(normalizedRews, localTotalRew, localTotalClippedRew)\<close>, the
  list argument holds the rewards from index \<^verbatim>\<open>i\<close> on. The unrolled loop runs while
  \<^verbatim>\<open>i < numReturns - numReturns % 8\<close>, that is while at least eight rewards are left, and
  adds the eight absolute values as one sum; the remainder loop takes the rest one by one.
\<close>

fun remainder_loop ::
  "real \<Rightarrow> bool \<Rightarrow> real \<Rightarrow> real list \<Rightarrow> real list \<times> real \<times> real \<Rightarrow> real list \<times> real \<times> real" where
  "remainder_loop invReturnStd shouldClip clipRange [] acc = acc"
| "remainder_loop invReturnStd shouldClip clipRange (r # rest)
     (normalizedRews, localTotalRew, localTotalClippedRew) =
     (let normalized = r * invReturnStd;
          localTotalRew' = localTotalRew + \<bar>normalized\<bar>;
          clipped = clip_if shouldClip clipRange normalized;
          localTotalClippedRew' = localTotalClippedRew + \<bar>clipped\<bar>
      in remainder_loop invReturnStd shouldClip clipRange rest
           (normalizedRews @ [clipped], localTotalRew', localTotalClippedRew'))"

function unrolled_loop ::
  "real \<Rightarrow> bool \<Rightarrow> real \<Rightarrow> real list \<Rightarrow> real list \<times> real \<times> real \<Rightarrow> real list \<times> real \<times> real" where
  "unrolled_loop invReturnStd shouldClip clipRange rest
     (normalizedRews, localTotalRew, localTotalClippedRew) =
     (if 8 \<le> length rest then
        (let n0 = rest ! 0 * invReturnStd; n1 = rest ! 1 * invReturnStd;
             n2 = rest ! 2 * invReturnStd; n3 = rest ! 3 * invReturnStd;
             n4 = rest ! 4 * invReturnStd; n5 = rest ! 5 * invReturnStd;
             n6 = rest ! 6 * invReturnStd; n7 = rest ! 7 * invReturnStd;
             localTotalRew' = localTotalRew +
               (\<bar>n0\<bar> + \<bar>n1\<bar> + \<bar>n2\<bar> + \<bar>n3\<bar> + \<bar>n4\<bar> + \<bar>n5\<bar> + \<bar>n6\<bar> + \<bar>n7\<bar>);
             c0 = clip_if shouldClip clipRange n0; c1 = clip_if shouldClip clipRange n1;
             c2 = clip_if shouldClip clipRange n2; c3 = clip_if shouldClip clipRange n3;
             c4 = clip_if shouldClip clipRange n4; c5 = clip_if shouldClip clipRange n5;
             c6 = clip_if shouldClip clipRange n6; c7 = clip_if shouldClip clipRange n7;
             localTotalClippedRew' = localTotalClippedRew +
               (\<bar>c0\<bar> + \<bar>c1\<bar> + \<bar>c2\<bar> + \<bar>c3\<bar> + \<bar>c4\<bar> + \<bar>c5\<bar> + \<bar>c6\<bar> + \<bar>c7\<bar>)
         in unrolled_loop invReturnStd shouldClip clipRange (drop 8 rest)
              (normalizedRews @ [c0, c1, c2, c3, c4, c5, c6, c7],
               localTotalRew', localTotalClippedRew'))
      else remainder_loop invReturnStd shouldClip clipRange rest
             (normalizedRews, localTotalRew, localTotalClippedRew))"
  by pat_completeness auto
termination
  by (relation "measure (\<lambda>(invReturnStd, shouldClip, clipRange, rest, acc). length rest)") auto

text \<open>
  Pass 4: \<^verbatim>\<open>for (int step = lastStep; step >= 0; step--)\<close>. The counter of the model is
  \<^verbatim>\<open>step + 1\<close>; the state is \<^verbatim>\<open>(prevLambda, prevRet, outAdvantages, outReturns)\<close>.
\<close>

fun gae_loop ::
  "real \<Rightarrow> real \<Rightarrow> real list \<Rightarrow> real list \<Rightarrow> real list \<Rightarrow> real list \<Rightarrow> real list \<Rightarrow>
   nat \<Rightarrow> real \<times> real \<times> real list \<times> real list \<Rightarrow> real \<times> real \<times> real list \<times> real list" where
  "gae_loop gamma gammaLambda rewardsPtr rews nextValPreds notDoneNotTruncs valPreds 0 st = st"
| "gae_loop gamma gammaLambda rewardsPtr rews nextValPreds notDoneNotTruncs valPreds (Suc step)
     (prevLambda, prevRet, outAdv, outRet) =
     (let curReward = rewardsPtr ! step;
          nextVal = nextValPreds ! step;
          notDoneNotTrunc = notDoneNotTruncs ! step;
          curValPred = valPreds ! step;
          predReturn = curReward + gamma * nextVal;
          delta = predReturn - curValPred;
          curReturn = rews ! step + prevRet * gamma * notDoneNotTrunc;
          prevLambda' = delta + gammaLambda * notDoneNotTrunc * prevLambda
      in gae_loop gamma gammaLambda rewardsPtr rews nextValPreds notDoneNotTruncs valPreds step
           (prevLambda', curReturn, outAdv[step := prevLambda'], outRet[step := curReturn]))"

text \<open>
  \<^verbatim>\<open>Compute\<close>. Reading \<^verbatim>\<open>terminals\<close> or \<^verbatim>\<open>valPreds\<close> beyond their end is a failure of the
  model. The output tensors come from \<^verbatim>\<open>torch::empty\<close>; pass 4 writes every entry, so the
  initial contents (zeros in the model) do not show. \<^verbatim>\<open>RG_ERR_CLOSE\<close> on a truncation count
  mismatch is the failure \<^verbatim>\<open>FatalError\<close>. The constant \<^verbatim>\<open>1e-7f\<close> is \<open>1 / 10 ^ 7\<close>.
\<close>

definition Compute ::
  "real list \<Rightarrow> terminal list \<Rightarrow> real list \<Rightarrow> real list option \<Rightarrow>
   real \<Rightarrow> real \<Rightarrow> real \<Rightarrow> real \<Rightarrow> failure + GAE_output" where
  "Compute rews terminals valPreds truncValPreds gamma lambda returnStd clipRange =
     (let hasTruncValPreds = (truncValPreds \<noteq> None);
          numReturns = length rews
      in if numReturns = 0 then
           Inr \<lparr>outAdvantages = [], outTargetValues = [], outReturns = [], outRewClipPortion = 0\<rparr>
         else if length terminals < numReturns \<or> length valPreds < numReturns then Inl OutOfBounds
         else
           (let numTruncs = (case truncValPreds of Some tv \<Rightarrow> length tv | None \<Rightarrow> 0);
                shouldNormalize = (returnStd \<noteq> 0 \<and> returnStd \<noteq> 1);
                shouldClip = (clipRange > 0);
                invReturnStd = (if shouldNormalize then 1 / returnStd else 1);
                gammaLambda = gamma * lambda;
                truncStepIndices = truncStepIndices_of terminals numReturns;
                nextValPreds = map (nextValPred_of terminals valPreds truncValPreds
                                      truncStepIndices numReturns) [0..<numReturns];
                notDoneNotTruncs = map (\<lambda>step. notDoneNotTrunc_of (terminals ! step)) [0..<numReturns];
                (normalizedRews, localTotalRew, localTotalClippedRew) =
                  (if shouldNormalize
                   then unrolled_loop invReturnStd shouldClip clipRange rews ([], 0, 0)
                   else ([], 0, 0));
                rewardsPtr = (if shouldNormalize then normalizedRews else rews);
                (prevLambda, prevRet, advantages, returns) =
                  gae_loop gamma gammaLambda rewardsPtr rews nextValPreds notDoneNotTruncs valPreds
                    numReturns (0, 0, replicate numReturns 0, replicate numReturns 0)
            in if hasTruncValPreds \<and> length truncStepIndices \<noteq> numTruncs then Inl FatalError
               else Inr \<lparr>outAdvantages = advantages,
                         outTargetValues = map2 (+) (take numReturns valPreds) advantages,
                         outReturns = returns,
                         outRewClipPortion =
                           (if shouldNormalize
                            then (localTotalRew - localTotalClippedRew) / max localTotalRew (1 / 10 ^ 7)
                            else 0)\<rparr>))"

subsection \<open>The recurrence of the specification\<close>

text \<open>
  The quantities in which the specification states the backward recurrence, written from
  its words: the reward used for the advantage term (\<^verbatim>\<open>r[s] / sigma\<close>, clamped when
  \<^verbatim>\<open>clipRange > 0\<close>, and the raw reward when \<^verbatim>\<open>sigma\<close> is 0 or 1), \<^verbatim>\<open>notDoneNotTrunc[s]\<close>,
  \<^verbatim>\<open>nextVal[s]\<close> with the truncation-order entry of \<^verbatim>\<open>truncValPreds\<close> (the number of
  truncated steps before \<^verbatim>\<open>s\<close>), the condition that there is one bootstrap value per
  truncated step, and the fraction of absolute normalized reward removed by the clamp.
\<close>

definition reward_used :: "real \<Rightarrow> real \<Rightarrow> real \<Rightarrow> real" where
  "reward_used returnStd clipRange r =
     (if returnStd \<noteq> 0 \<and> returnStd \<noteq> 1
      then clip_if (clipRange > 0) clipRange (r * (1 / returnStd)) else r)"



definition truncs_match :: "terminal list \<Rightarrow> real list option \<Rightarrow> nat \<Rightarrow> bool" where
  "truncs_match terminals truncValPreds n =
     (case truncValPreds of
        None \<Rightarrow> True
      | Some tv \<Rightarrow> length tv = length (filter (\<lambda>t. t = TRUNCATED) (take n terminals)))"

definition clip_portion :: "real list \<Rightarrow> real \<Rightarrow> real \<Rightarrow> real" where
  "clip_portion rews returnStd clipRange =
     ((\<Sum>r\<leftarrow>rews. \<bar>r * (1 / returnStd)\<bar>)
        - (\<Sum>r\<leftarrow>rews. \<bar>clip_if (clipRange > 0) clipRange (r * (1 / returnStd))\<bar>))
     / max (\<Sum>r\<leftarrow>rews. \<bar>r * (1 / returnStd)\<bar>) (1 / 10 ^ 7)"

section \<open>ZeroSumReward::GetAllRewards\<close>

text \<open>
  \<^verbatim>\<open>ZeroSumReward.cpp\<close>. Of the game state the function reads the team of every player, in
  the order of \<^verbatim>\<open>state.players\<close>. \<^verbatim>\<open>float\<close> arithmetic is modelled by exact arithmetic on
  the reals.
\<close>

text \<open>
  Modelled from the spec: the enumeration \<^verbatim>\<open>Team\<close> belongs to the simulation engine and is
  not part of the sources at hand; the spec speaks of a player's team and the opposing team,
  and the code indexes the two-element arrays \<^verbatim>\<open>teamCounts\<close> and \<^verbatim>\<open>teamSums\<close> with
  \<^verbatim>\<open>static_cast<int>(team)\<close>, so there are two teams with the indices 0 and 1.
\<close>

datatype Team = BLUE | ORANGE

fun team_index :: "Team \<Rightarrow> nat" where
  "team_index BLUE = 0"
| "team_index ORANGE = 1"

text \<open>The fields of the wrapper; \<^verbatim>\<open>lastRewards\<close> is \<^verbatim>\<open>_lastRewards\<close>, kept for logging.\<close>

record ZeroSumReward =
  teamSpirit :: real
  opponentScale :: real
  lastRewards :: "real list"

text \<open>
  The first pass: \<^verbatim>\<open>teamCounts[teamIdx]++; teamSums[teamIdx] += rawRewards[i];\<close> with the
  accumulator \<^verbatim>\<open>((teamCounts[0], teamCounts[1]), (teamSums[0], teamSums[1]))\<close>.
\<close>

fun team_sums_loop ::
  "Team list \<Rightarrow> real list \<Rightarrow> (int \<times> int) \<times> (real \<times> real) \<Rightarrow> (int \<times> int) \<times> (real \<times> real)" where
  "team_sums_loop (team # players) (raw # rawRewards) ((count0, count1), (sum0, sum1)) =
     team_sums_loop players rawRewards
       (if team_index team = 0 then ((count0 + 1, count1), (sum0 + raw, sum1))
        else ((count0, count1 + 1), (sum0, sum1 + raw)))"
| "team_sums_loop _ _ acc = acc"

text \<open>
  \<^verbatim>\<open>GetAllRewards\<close>, given the vector \<^verbatim>\<open>rawRewards\<close> that the child reward returns. A raw
  vector whose length is not the number of players makes the copy into \<^verbatim>\<open>_lastRewards\<close> or
  the reads \<^verbatim>\<open>rawRewards[i]\<close> leave their buffer. The result is the returned vector and the
  wrapper with its new \<^verbatim>\<open>_lastRewards\<close>.
\<close>

definition GetAllRewards ::
  "ZeroSumReward \<Rightarrow> Team list \<Rightarrow> real list \<Rightarrow> failure + (real list \<times> ZeroSumReward)" where
  "GetAllRewards zs players rawRewards =
     (if length rawRewards \<noteq> length players then Inl OutOfBounds
      else
        (let ((count0, count1), (sum0, sum1)) = team_sums_loop players rawRewards ((0, 0), (0, 0));
             avgTeam0 = (if count0 > 0 then sum0 / real_of_int count0 else 0);
             avgTeam1 = (if count1 > 0 then sum1 / real_of_int count1 else 0);
             selfCoef = 1 - teamSpirit zs
         in Inr (map2 (\<lambda>team raw.
                         (let teamIdx = team_index team;
                              avgTeamReward = (if teamIdx = 0 then avgTeam0 else avgTeam1);
                              avgOpponentReward = (if teamIdx = 0 then avgTeam1 else avgTeam0)
                          in raw * selfCoef + avgTeamReward * teamSpirit zs
                               - avgOpponentReward * opponentScale zs))
                   players rawRewards,
                 zs\<lparr>lastRewards := rawRewards\<rparr>)))"

text \<open>
  The averages of the claim: the raw rewards of the players of a team, and their mean, which
  is 0 for a team without players (as \<^verbatim>\<open>teamCounts[t] > 0 ? ... : 0.0f\<close> has it).
\<close>

definition team_rewards :: "Team \<Rightarrow> Team list \<Rightarrow> real list \<Rightarrow> real list" where
  "team_rewards team players raw = map snd (filter (\<lambda>p. fst p = team) (zip players raw))"

definition avg_team_reward :: "Team \<Rightarrow> Team list \<Rightarrow> real list \<Rightarrow> real" where
  "avg_team_reward team players raw =
     (if team_rewards team players raw = [] then 0
      else sum_list (team_rewards team players raw) / real (length (team_rewards team players raw)))"

fun opponent :: "Team \<Rightarrow> Team" where
  "opponent BLUE = ORANGE"
| "opponent ORANGE = BLUE"

section \<open>Learner::Start: merging trajectories into the rollout\<close>

text \<open>
  \<^verbatim>\<open>Learner.cpp\<close>, the local struct \<^verbatim>\<open>Trajectory\<close> (lines 504-547) and the last loop of a
  collection step (lines 844-863). The fields carry the prefix \<^verbatim>\<open>traj_\<close>; rewards and
  log-probabilities are stored, never computed with, and are reals in the model.
\<close>

record Trajectory =
  traj_states :: "real list"
  traj_nextStates :: "real list"
  traj_rewards :: "real list"
  traj_logProbs :: "real list"
  traj_actionMasks :: "8 word list"
  traj_terminals :: "terminal list"
  traj_actions :: "int list"

text \<open>The trajectory all of whose lists are empty.\<close>

definition empty_Trajectory :: Trajectory where
  "empty_Trajectory =
     \<lparr>traj_states = [], traj_nextStates = [], traj_rewards = [], traj_logProbs = [],
      traj_actionMasks = [], traj_terminals = [], traj_actions = []\<rparr>"

text \<open>\<^verbatim>\<open>Clear()\<close>, \<^verbatim>\<open>Append(other)\<close> and \<^verbatim>\<open>Length()\<close>.\<close>

definition Clear :: "Trajectory \<Rightarrow> Trajectory" where
  "Clear traj =
     traj\<lparr>traj_states := [], traj_nextStates := [], traj_rewards := [], traj_logProbs := [],
          traj_actionMasks := [], traj_terminals := [], traj_actions := []\<rparr>"

definition Append :: "Trajectory \<Rightarrow> Trajectory \<Rightarrow> Trajectory" where
  "Append self other =
     self\<lparr>traj_states := traj_states self @ traj_states other,
          traj_nextStates := traj_nextStates self @ traj_nextStates other,
          traj_rewards := traj_rewards self @ traj_rewards other,
          traj_logProbs := traj_logProbs self @ traj_logProbs other,
          traj_actionMasks := traj_actionMasks self @ traj_actionMasks other,
          traj_terminals := traj_terminals self @ traj_terminals other,
          traj_actions := traj_actions self @ traj_actions other\<rparr>"

definition Length :: "Trajectory \<Rightarrow> nat" where
  "Length traj = length (traj_actions traj)"

text \<open>
  \<^verbatim>\<open>traj.Length() >= maxEpisodeLength\<close> compares a \<^verbatim>\<open>size_t\<close> with an \<^verbatim>\<open>int\<close>: the \<^verbatim>\<open>int\<close> is
  converted to the unsigned 64-bit type first.
\<close>

definition to_size_t :: "int \<Rightarrow> nat" where
  "to_size_t x = nat (x mod 2 ^ 64)"

text \<open>
  The part of the collection loop's state that the merge touches: the per-agent
  \<^verbatim>\<open>trajectories\<close> and the rollout \<^verbatim>\<open>combinedTraj\<close>.
\<close>

record collection =
  trajectories :: "Trajectory list"
  combinedTraj :: Trajectory

text \<open>
  \<^verbatim>\<open>int8_t terminalType = curTerminals[newPlayerIdx];
  if (!terminalType && traj.Length() >= maxEpisodeLength) terminalType = TRUNCATED;\<close>
\<close>

definition episode_terminal :: "terminal \<Rightarrow> Trajectory \<Rightarrow> int \<Rightarrow> terminal" where
  "episode_terminal curTerminal traj maxEpisodeLength =
     (if curTerminal = 0 \<and> Length traj \<ge> to_size_t maxEpisodeLength then TRUNCATED
      else curTerminal)"

text \<open>
  The body of \<^verbatim>\<open>for (int newPlayerIdx : newPlayerIndices)\<close>. \<^verbatim>\<open>obsRow i\<close> is
  \<^verbatim>\<open>envSet->state.obs.GetRowSpan(i)\<close>. An index outside \<^verbatim>\<open>curTerminals\<close> or \<^verbatim>\<open>trajectories\<close>
  is a failure of the model.
\<close>

definition merge_player ::
  "terminal list \<Rightarrow> (nat \<Rightarrow> real list) \<Rightarrow> int \<Rightarrow> nat \<Rightarrow> collection \<Rightarrow> failure + collection" where
  "merge_player curTerminals obsRow maxEpisodeLength newPlayerIdx c =
     (if newPlayerIdx \<ge> length curTerminals \<or> newPlayerIdx \<ge> length (trajectories c)
      then Inl OutOfBounds
      else
        (let traj = trajectories c ! newPlayerIdx;
             terminalType = episode_terminal (curTerminals ! newPlayerIdx) traj maxEpisodeLength;
             traj1 = traj\<lparr>traj_terminals := traj_terminals traj @ [terminalType]\<rparr>
         in if terminalType \<noteq> 0 then
              (let traj2 = (if terminalType = TRUNCATED
                            then traj1\<lparr>traj_nextStates := traj_nextStates traj1 @ obsRow newPlayerIdx\<rparr>
                            else traj1)
               in Inr \<lparr>trajectories = (trajectories c)[newPlayerIdx := Clear traj2],
                       combinedTraj = Append (combinedTraj c) traj2\<rparr>)
            else Inr (c\<lparr>trajectories := (trajectories c)[newPlayerIdx := traj1]\<rparr>)))"

fun merge_loop ::
  "terminal list \<Rightarrow> (nat \<Rightarrow> real list) \<Rightarrow> int \<Rightarrow> nat list \<Rightarrow> collection \<Rightarrow> failure + collection" where
  "merge_loop curTerminals obsRow maxEpisodeLength [] c = Inr c"
| "merge_loop curTerminals obsRow maxEpisodeLength (newPlayerIdx # rest) c =
     (case merge_player curTerminals obsRow maxEpisodeLength newPlayerIdx c of
        Inl e \<Rightarrow> Inl e
      | Inr c' \<Rightarrow> merge_loop curTerminals obsRow maxEpisodeLength rest c')"

text \<open>
  The words of the claim: an agent's episode ends at this tick when its terminal flag is
  non-zero or its trajectory length has reached the maximum episode length; its finished
  trajectory is the trajectory with the terminal of the tick (a synthetic \<^verbatim>\<open>TRUNCATED\<close> when
  the flag is zero) and, for a truncation, the next observation row. An agent whose episode
  goes on has the terminal 0 recorded.
\<close>

definition episode_ends :: "terminal list \<Rightarrow> int \<Rightarrow> Trajectory list \<Rightarrow> nat \<Rightarrow> bool" where
  "episode_ends curTerminals maxEpisodeLength trajs i \<longleftrightarrow>
     curTerminals ! i \<noteq> 0 \<or> int (Length (trajs ! i)) \<ge> maxEpisodeLength"

definition finished_traj ::
  "terminal list \<Rightarrow> (nat \<Rightarrow> real list) \<Rightarrow> int \<Rightarrow> Trajectory list \<Rightarrow> nat \<Rightarrow> Trajectory" where
  "finished_traj curTerminals obsRow maxEpisodeLength trajs i =
     (let traj = trajs ! i;
          t = (if curTerminals ! i \<noteq> 0 then curTerminals ! i else TRUNCATED)
      in traj\<lparr>traj_terminals := traj_terminals traj @ [t],
              traj_nextStates := traj_nextStates traj @ (if t = TRUNCATED then obsRow i else [])\<rparr>)"

definition step_recorded :: "Trajectory \<Rightarrow> Trajectory" where
  "step_recorded traj = traj\<lparr>traj_terminals := traj_terminals traj @ [0]\<rparr>"

section \<open>PPOLearner::Learn: an exception in a minibatch\<close>

text \<open>
  \<^verbatim>\<open>PPOLearner.cpp\<close>, the loop over the batches of an epoch (lines 335-530) with the inner
  \<^verbatim>\<open>try { ... } catch (const std::exception& e) { RG_LOG(...); continue; }\<close> at lines
  504-518. The tensor computations of a minibatch are abstract: a minibatch is named by its
  batch index and its range \<^verbatim>\<open>[start, stop)\<close>, and an oracle \<^verbatim>\<open>throws\<close> tells whether
  \<^verbatim>\<open>fnRunMinibatch(start, stop)\<close> raises a \<^verbatim>\<open>std::exception\<close> in that batch.

  The state records what the claim speaks of: the minibatches whose \<^verbatim>\<open>backward()\<close> has
  added to the gradients since they were last zeroed (\<^verbatim>\<open>pendingGrads\<close>), the optimizer
  steps taken, each with the gradient contributions it applied (\<^verbatim>\<open>optimSteps\<close>), the batch
  indices for which \<^verbatim>\<open>PPO minibatch skipped due to exception\<close> was logged (\<^verbatim>\<open>skipLog\<close>), and
  the counter \<^verbatim>\<open>numAccumulated\<close>.
\<close>

type_synonym minibatch = "nat \<times> int \<times> int"

record learner =
  pendingGrads :: "minibatch list"
  optimSteps :: "minibatch list list"
  skipLog :: "nat list"
  numAccumulated :: nat

text \<open>
  \<^verbatim>\<open>fnRunMinibatch\<close>: \<^verbatim>\<open>Inl\<close> is a raised exception, with the state at the throw, \<^verbatim>\<open>Inr\<close> a
  normal return. A minibatch that throws is taken to throw before \<^verbatim>\<open>numAccumulated++\<close> and
  \<^verbatim>\<open>backward()\<close>; one that returns has counted itself and added its gradients.
\<close>

definition fnRunMinibatch ::
  "(nat \<Rightarrow> int \<Rightarrow> int \<Rightarrow> bool) \<Rightarrow> nat \<Rightarrow> int \<Rightarrow> int \<Rightarrow> learner \<Rightarrow> learner + learner" where
  "fnRunMinibatch throws batchIdx start stop st =
     (if throws batchIdx start stop then Inl st
      else Inr (st\<lparr>numAccumulated := numAccumulated st + 1,
                   pendingGrads := pendingGrads st @ [(batchIdx, start, stop)]\<rparr>))"

text \<open>
  \<^verbatim>\<open>for (int64_t mbs = 0; mbs < actualBatchSize; mbs += config.miniBatchSize)
  { int64_t end = std::min(mbs + config.miniBatchSize, actualBatchSize); fnRunMinibatch(mbs, end); }\<close>
  inside the \<^verbatim>\<open>try\<close>: an exception leaves the loop. With a \<^verbatim>\<open>miniBatchSize\<close> that is not
  positive the loop need not end, which is the value \<^verbatim>\<open>None\<close>.
\<close>

partial_function (option) minibatch_loop ::
  "(nat \<Rightarrow> int \<Rightarrow> int \<Rightarrow> bool) \<Rightarrow> nat \<Rightarrow> int \<Rightarrow> int \<Rightarrow> int \<Rightarrow> learner \<Rightarrow> (learner + learner) option" where
  "minibatch_loop throws batchIdx miniBatchSize actualBatchSize mbs st =
     (if mbs < actualBatchSize then
        (case fnRunMinibatch throws batchIdx mbs (min (mbs + miniBatchSize) actualBatchSize) st of
           Inl st' \<Rightarrow> Some (Inl st')
         | Inr st' \<Rightarrow>
             minibatch_loop throws batchIdx miniBatchSize actualBatchSize (mbs + miniBatchSize) st')
      else Some (Inr st))"

declare minibatch_loop.simps [code]

text \<open>
  One iteration of the batch loop from the \<^verbatim>\<open>try\<close> on, for a batch of \<^verbatim>\<open>actualBatchSize\<close>
  rows: on the CPU the whole batch is one minibatch; the handler logs and continues with the
  next batch; otherwise the gradients are clipped and \<^verbatim>\<open>models.StepOptims()\<close> steps the
  optimizers and zeroes the gradients (\<^verbatim>\<open>Model::StepOptim\<close>, \<^verbatim>\<open>Models.cpp\<close> lines 96-101).
\<close>

definition learn_batch ::
  "(nat \<Rightarrow> int \<Rightarrow> int \<Rightarrow> bool) \<Rightarrow> bool \<Rightarrow> int \<Rightarrow> nat \<Rightarrow> int \<Rightarrow> learner \<Rightarrow> learner option" where
  "learn_batch throws is_cpu miniBatchSize batchIdx actualBatchSize st =
     (case (if is_cpu then Some (fnRunMinibatch throws batchIdx 0 actualBatchSize st)
            else minibatch_loop throws batchIdx miniBatchSize actualBatchSize 0 st) of
        None \<Rightarrow> None
      | Some (Inl st') \<Rightarrow> Some (st'\<lparr>skipLog := skipLog st' @ [batchIdx]\<rparr>)
      | Some (Inr st') \<Rightarrow>
          Some (st'\<lparr>optimSteps := optimSteps st' @ [pendingGrads st'], pendingGrads := []\<rparr>))"

text \<open>\<^verbatim>\<open>for (size_t batchIdx = 0; batchIdx < doubleBuffer.Size(); batchIdx++)\<close>\<close>

fun learn_batches ::
  "(nat \<Rightarrow> int \<Rightarrow> int \<Rightarrow> bool) \<Rightarrow> bool \<Rightarrow> int \<Rightarrow> nat \<Rightarrow> int list \<Rightarrow> learner \<Rightarrow> learner option" where
  "learn_batches throws is_cpu miniBatchSize batchIdx [] st = Some st"
| "learn_batches throws is_cpu miniBatchSize batchIdx (actualBatchSize # rest) st =
     (case learn_batch throws is_cpu miniBatchSize batchIdx actualBatchSize st of
        None \<Rightarrow> None
      | Some st' \<Rightarrow> learn_batches throws is_cpu miniBatchSize (batchIdx + 1) rest st')"

text \<open>
  For the statement of the property: the minibatches into which a batch is cut, those of
  them that run before the first one that throws, and whether one of them throws.
\<close>

function minibatch_ranges :: "int \<Rightarrow> int \<Rightarrow> int \<Rightarrow> (int \<times> int) list" where
  "minibatch_ranges miniBatchSize actualBatchSize mbs =
     (if mbs < actualBatchSize \<and> 0 < miniBatchSize
      then (mbs, min (mbs + miniBatchSize) actualBatchSize) #
           minibatch_ranges miniBatchSize actualBatchSize (mbs + miniBatchSize)
      else [])"
  by pat_completeness auto
termination
  by (relation "measure (\<lambda>(miniBatchSize, actualBatchSize, mbs). nat (actualBatchSize - mbs))") auto

definition minibatches_of :: "bool \<Rightarrow> int \<Rightarrow> int \<Rightarrow> (int \<times> int) list" where
  "minibatches_of is_cpu miniBatchSize actualBatchSize =
     (if is_cpu then [(0, actualBatchSize)] else minibatch_ranges miniBatchSize actualBatchSize 0)"

definition completed :: "(nat \<Rightarrow> int \<Rightarrow> int \<Rightarrow> bool) \<Rightarrow> nat \<Rightarrow> (int \<times> int) list \<Rightarrow> (int \<times> int) list" where
  "completed throws batchIdx mbs = takeWhile (\<lambda>(start, stop). \<not> throws batchIdx start stop) mbs"

definition batch_fails :: "(nat \<Rightarrow> int \<Rightarrow> int \<Rightarrow> bool) \<Rightarrow> nat \<Rightarrow> (int \<times> int) list \<Rightarrow> bool" where
  "batch_fails throws batchIdx mbs = list_ex (\<lambda>(start, stop). throws batchIdx start stop) mbs"

text \<open>The effect of the minibatches \<^verbatim>\<open>done\<close> of batch \<^verbatim>\<open>batchIdx\<close> having run.\<close>

definition ran :: "nat \<Rightarrow> (int \<times> int) list \<Rightarrow> learner \<Rightarrow> learner" where
  "ran batchIdx done st =
     st\<lparr>numAccumulated := numAccumulated st + length done,
        pendingGrads := pendingGrads st @ map (\<lambda>(start, stop). (batchIdx, start, stop)) done\<rparr>"

text \<open>The indices of the batches, numbered from \<^verbatim>\<open>batchIdx\<close>, in which a minibatch throws.\<close>

definition failing_batches ::
  "(nat \<Rightarrow> int \<Rightarrow> int \<Rightarrow> bool) \<Rightarrow> bool \<Rightarrow> int \<Rightarrow> nat \<Rightarrow> int list \<Rightarrow> nat list" where
  "failing_batches throws is_cpu miniBatchSize batchIdx batches =
     map fst (filter (\<lambda>(b, actual). batch_fails throws b (minibatches_of is_cpu miniBatchSize actual))
                (zip [batchIdx..<batchIdx + length batches] batches))"

text \<open>An oracle under which exactly the first minibatch of every batch throws.\<close>

definition first_minibatch_throws :: "nat \<Rightarrow> int \<Rightarrow> int \<Rightarrow> bool" where
  "first_minibatch_throws b start stop \<longleftrightarrow> start = 0"

section \<open>EnvSet: construction\<close>

text \<open>
  \<^verbatim>\<open>Lists.h\<close>, the table \<^verbatim>\<open>DimList2\<close>: \<^verbatim>\<open>size[0]\<close> rows of \<^verbatim>\<open>size[1]\<close> entries in one vector.
\<close>

record 'a DimList2 =
  size0 :: nat
  size1 :: nat
  data :: "'a list"

text \<open>\<^verbatim>\<open>DimList2(size0, size1)\<close>: \<^verbatim>\<open>data.resize(numel)\<close> fills the vector with zeros.\<close>

definition new_DimList2 :: "nat \<Rightarrow> nat \<Rightarrow> ('a::zero) DimList2" where
  "new_DimList2 n0 n1 = \<lparr>size0 = n0, size1 = n1, data = replicate (n0 * n1) 0\<rparr>"

text \<open>
  \<^verbatim>\<open>SetFromPtr(idx0, src, count)\<close>, with \<^verbatim>\<open>src\<close> and \<^verbatim>\<open>count\<close> the data and the size of one
  vector: \<^verbatim>\<open>RG_ASSERT(count == size[1])\<close>, then the \<^verbatim>\<open>memcpy\<close> of the row, which must stay
  inside \<^verbatim>\<open>data\<close>.
\<close>

definition SetFromPtr :: "'a DimList2 \<Rightarrow> nat \<Rightarrow> 'a list \<Rightarrow> failure + 'a DimList2" where
  "SetFromPtr dl idx0 src =
     (if length src \<noteq> size1 dl then Inl FatalError
      else if idx0 * size1 dl + length src > length (data dl) then Inl OutOfBounds
      else Inr (dl\<lparr>data := take (idx0 * size1 dl) (data dl) @ src
                               @ drop (idx0 * size1 dl + length src) (data dl)\<rparr>))"

text \<open>
  \<^verbatim>\<open>EnvSet.cpp\<close>. What the constructor observes of one created environment: the number of
  cars of its arena once the state setter has reset it, the vectors that its observation
  builder and its action parser return for the player at a position, and the parser's
  \<^verbatim>\<open>GetActionAmount()\<close>. \<^verbatim>\<open>EnvState\<close> keeps the part of \<^verbatim>\<open>state\<close> involved.
\<close>

record Env =
  numCars :: nat
  BuildObs :: "nat \<Rightarrow> real list"
  GetActionMask :: "nat \<Rightarrow> 8 word list"
  GetActionAmount :: nat

record EnvState =
  numPlayers :: nat
  arenaPlayerStartIdx :: "nat list"
  obs :: "real DimList2"
  actionMasks :: "8 word DimList2"

text \<open>
  Modelled from the spec: \<^verbatim>\<open>state.Resize(arenas)\<close> is declared in a header that is not part
  of the sources at hand; by the spec the rows of the tables are the agents of all arenas,
  flattened by a per-arena start offset, and the row count is the total agent count.
\<close>

definition Resize :: "Env list \<Rightarrow> EnvState" where
  "Resize arenas =
     \<lparr>numPlayers = sum_list (map numCars arenas),
      arenaPlayerStartIdx = map (\<lambda>k. sum_list (map numCars (take k arenas))) [0..<length arenas],
      obs = new_DimList2 0 0,
      actionMasks = new_DimList2 0 0\<rparr>"

text \<open>
  \<^verbatim>\<open>ResetArena(index)\<close>, its loop \<^verbatim>\<open>for (int i = 0; i < numPlayers; i++)\<close> writing the
  observation row and the mask row of each player.
\<close>

fun reset_players :: "Env \<Rightarrow> nat \<Rightarrow> nat list \<Rightarrow> EnvState \<Rightarrow> failure + EnvState" where
  "reset_players env playerStartIdx [] st = Inr st"
| "reset_players env playerStartIdx (i # rest) st =
     (case SetFromPtr (obs st) (playerStartIdx + i) (BuildObs env i) of
        Inl e \<Rightarrow> Inl e
      | Inr obs' \<Rightarrow>
          (case SetFromPtr (actionMasks st) (playerStartIdx + i) (GetActionMask env i) of
             Inl e \<Rightarrow> Inl e
           | Inr masks' \<Rightarrow>
               reset_players env playerStartIdx rest (st\<lparr>obs := obs', actionMasks := masks'\<rparr>)))"

definition ResetArena :: "Env list \<Rightarrow> nat \<Rightarrow> EnvState \<Rightarrow> failure + EnvState" where
  "ResetArena arenas index st =
     (if index \<ge> length arenas \<or> index \<ge> length (arenaPlayerStartIdx st) then Inl OutOfBounds
      else reset_players (arenas ! index) (arenaPlayerStartIdx st ! index)
             [0..<numCars (arenas ! index)] st)"

text \<open>
  \<^verbatim>\<open>g_ThreadPool.StartBatchedJobs(ResetArena, config.numArenas, false)\<close>. The pool runs the
  resets in an order the code does not fix; each writes the rows of its own arena only and
  a failed assertion in any of them is fatal, so whether the construction fails does not
  depend on the order. The model takes the arenas in the order of the list.
\<close>

fun reset_jobs :: "Env list \<Rightarrow> nat list \<Rightarrow> EnvState \<Rightarrow> failure + EnvState" where
  "reset_jobs arenas [] st = Inr st"
| "reset_jobs arenas (index # rest) st =
     (case ResetArena arenas index st of
        Inl e \<Rightarrow> Inl e
      | Inr st' \<Rightarrow> reset_jobs arenas rest st')"

text \<open>
  The constructor, from the two assertions on the configuration to the initial reset.
  \<^verbatim>\<open>arenas\<close> are the created environments in the order in which they were appended;
  probing \<^verbatim>\<open>arenas[0]\<close> of no arenas, or \<^verbatim>\<open>players[0]\<close> of an arena without cars, reads out of
  bounds.
\<close>

definition EnvSet_ctor :: "int \<Rightarrow> int \<Rightarrow> Env list \<Rightarrow> failure + EnvState" where
  "EnvSet_ctor tickSkip actionDelay arenas =
     (if \<not> tickSkip > 0 then Inl FatalError
      else if \<not> (actionDelay \<ge> 0 \<and> actionDelay \<le> tickSkip) then Inl FatalError
      else
        (case arenas of
           [] \<Rightarrow> Inl OutOfBounds
         | arena0 # _ \<Rightarrow>
             if numCars arena0 = 0 then Inl OutOfBounds
             else
               (let st = Resize arenas;
                    obsSize = length (BuildObs arena0 0);
                    st = st\<lparr>obs := new_DimList2 (numPlayers st) obsSize,
                            actionMasks := new_DimList2 (numPlayers st) (GetActionAmount arena0)\<rparr>
                in reset_jobs arenas [0..<length arenas] st)))"

text \<open>
  The words of the claim: an environment has the observation width and the action-space
  size of arena 0 when every observation of its players is as long as the probed one and
  every action mask has \<^verbatim>\<open>GetActionAmount()\<close> of arena 0 entries.
\<close>

definition widths_match :: "Env \<Rightarrow> Env \<Rightarrow> bool" where
  "widths_match arena0 env \<longleftrightarrow>
     list_all (\<lambda>i. length (BuildObs env i) = length (BuildObs arena0 0)
                     \<and> length (GetActionMask env i) = GetActionAmount arena0)
       [0..<numCars env]"

text \<open>Invariants of the tables during construction, and the start offsets.\<close>

definition table_ok :: "nat \<Rightarrow> nat \<Rightarrow> 'a DimList2 \<Rightarrow> bool" where
  "table_ok n w dl \<longleftrightarrow> size0 dl = n \<and> size1 dl = w \<and> length (data dl) = n * w"

definition state_ok :: "nat \<Rightarrow> nat \<Rightarrow> nat \<Rightarrow> nat list \<Rightarrow> EnvState \<Rightarrow> bool" where
  "state_ok n w a starts st \<longleftrightarrow>
     table_ok n w (obs st) \<and> table_ok n a (actionMasks st) \<and> arenaPlayerStartIdx st = starts"

definition player_ok :: "nat \<Rightarrow> nat \<Rightarrow> Env \<Rightarrow> nat \<Rightarrow> bool" where
  "player_ok w a env i \<longleftrightarrow> length (BuildObs env i) = w \<and> length (GetActionMask env i) = a"

definition starts_of :: "Env list \<Rightarrow> nat list" where
  "starts_of arenas = map (\<lambda>k. sum_list (map numCars (take k arenas))) [0..<length arenas]"

text \<open>
  An environment for illustration: two cars, observations of a given width, three actions.
\<close>

definition example_arena :: "nat \<Rightarrow> Env" where
  "example_arena w =
     \<lparr>numCars = 2, BuildObs = (\<lambda>i. replicate w 0), GetActionMask = (\<lambda>i. [1, 1, 0]),
      GetActionAmount = 3\<rparr>"

section \<open>Verified properties\<close>

subsection \<open>Terminal precedence in StepSecondHalf\<close>

lemma terminal_consts_distinct:
  "NOT_TERMINAL \<noteq> NORMAL" "NOT_TERMINAL \<noteq> TRUNCATED" "NORMAL \<noteq> TRUNCATED"
  "NORMAL \<noteq> NOT_TERMINAL" "TRUNCATED \<noteq> NOT_TERMINAL" "TRUNCATED \<noteq> NORMAL"
  by (simp_all add: NOT_TERMINAL_def NORMAL_def TRUNCATED_def)

lemma update_terminal_cases:
  "update_terminal t c =
     (if fires_normal c then NORMAL
      else if fires_truncated c then (if t = NOT_TERMINAL then TRUNCATED else t)
      else t)"
  by (simp add: update_terminal_def Let_def terminal_consts_distinct fires_normal_def
        fires_truncated_def)

lemma terminal_loop_NORMAL: "terminal_loop NORMAL conds = NORMAL"
  by (induction conds) (simp_all add: update_terminal_cases terminal_consts_distinct)

lemma terminal_loop_TRUNCATED:
  "terminal_loop TRUNCATED conds =
     (if list_ex fires_normal conds then NORMAL else TRUNCATED)"
  by (induction conds)
     (simp_all add: update_terminal_cases terminal_consts_distinct terminal_loop_NORMAL)

lemma terminal_loop_NOT_TERMINAL:
  "terminal_loop NOT_TERMINAL conds =
     (if list_ex fires_normal conds then NORMAL
      else if list_ex fires_truncated conds then TRUNCATED
      else NOT_TERMINAL)"
  by (induction conds)
     (simp_all add: update_terminal_cases terminal_consts_distinct terminal_loop_NORMAL
        terminal_loop_TRUNCATED)

text \<open>
  Claim C3. For every sequence of terminal-condition results evaluated in
  \<^verbatim>\<open>StepSecondHalf\<close>, the stored terminal type is \<^verbatim>\<open>NORMAL\<close> if any condition fires as a
  non-truncation, \<^verbatim>\<open>TRUNCATED\<close> if only truncation conditions fire, and \<^verbatim>\<open>NOT_TERMINAL\<close>
  if none fires. In particular a later \<^verbatim>\<open>NORMAL\<close> overrides an earlier \<^verbatim>\<open>TRUNCATED\<close>
  (whatever is evaluated before, between and after the two), and a later \<^verbatim>\<open>TRUNCATED\<close>
  never overrides an earlier \<^verbatim>\<open>NORMAL\<close>.
\<close>

theorem StepSecondHalf_terminal_precedence:
  "StepSecondHalf_terminal conds =
     (if list_ex fires_normal conds then NORMAL
      else if list_ex fires_truncated conds then TRUNCATED
      else NOT_TERMINAL)
   \<and> (fires_truncated c1 \<and> fires_normal c2 \<longrightarrow>
        StepSecondHalf_terminal (pre @ c1 # mid @ c2 # post) = NORMAL)
   \<and> (fires_normal c1 \<and> fires_truncated c2 \<longrightarrow>
        StepSecondHalf_terminal (pre @ c1 # mid @ c2 # post) = NORMAL)"
  by (simp add: StepSecondHalf_terminal_def terminal_loop_NOT_TERMINAL)

theorem StepSecondHalf_terminal_precedence_witness:
  "StepSecondHalf_terminal
     [\<lparr>IsTerminal = False, IsTruncation = False\<rparr>,
      \<lparr>IsTerminal = True, IsTruncation = True\<rparr>,
      \<lparr>IsTerminal = True, IsTruncation = True\<rparr>] = TRUNCATED
   \<and> fires_truncated \<lparr>IsTerminal = True, IsTruncation = True\<rparr>
   \<and> fires_normal \<lparr>IsTerminal = True, IsTruncation = False\<rparr>
   \<and> StepSecondHalf_terminal
       ([] @ \<lparr>IsTerminal = True, IsTruncation = True\<rparr> # [] @
        \<lparr>IsTerminal = True, IsTruncation = False\<rparr> # []) = NORMAL
   \<and> StepSecondHalf_terminal
       ([] @ \<lparr>IsTerminal = True, IsTruncation = False\<rparr> # [] @
        \<lparr>IsTerminal = True, IsTruncation = True\<rparr> # []) = NORMAL"
proof -
  let ?t = "\<lparr>IsTerminal = True, IsTruncation = True\<rparr>"
  let ?n = "\<lparr>IsTerminal = True, IsTruncation = False\<rparr>"
  have t: "fires_truncated ?t" by (simp add: fires_truncated_def)
  have n: "fires_normal ?n" by (simp add: fires_normal_def)
  have nt: "\<not> fires_normal ?t" by (simp add: fires_normal_def)
  have nn: "\<not> fires_normal \<lparr>IsTerminal = False, IsTruncation = False\<rparr>"
    by (simp add: fires_normal_def)
  show ?thesis
    using StepSecondHalf_terminal_precedence
            [of "[\<lparr>IsTerminal = False, IsTruncation = False\<rparr>, ?t, ?t]" ?t ?n "[]" "[]" "[]"]
          StepSecondHalf_terminal_precedence
            [of "[]" ?n ?t "[]" "[]" "[]"] t n nt nn
    by simp
qed

subsection \<open>ThreadPool: the chunked variant calls every index once\<close>

declare range_loop.simps [simp del] batched_loop.simps [simp del] chunk_loop.simps [simp del]














text \<open>
  The bound on \<^verbatim>\<open>num\<close> is needed. With four workers and \<^verbatim>\<open>num = INT_MAX\<close> the sum
  \<^verbatim>\<open>num + _numThreads - 1\<close> wraps around, the chunk size is negative, and the four jobs that
  are enqueued are empty ranges: \<^verbatim>\<open>func\<close> is never called.
\<close>

lemma StartBatchedJobsChunked_overflow:
  "StartBatchedJobsChunked 4 (2 ^ 31 - 1) False =
     Inr \<lparr>enqueued = [Chunk 0 (- 536870911), Chunk (- 536870911) (- 1073741822),
                      Chunk (- 1073741822) (- 1610612733), Chunk (- 1610612733) (- 2147483644)],
          waited = True\<rparr>
   \<and> invocations \<lparr>enqueued = [Chunk 0 (- 536870911), Chunk (- 536870911) (- 1073741822),
                      Chunk (- 1073741822) (- 1610612733), Chunk (- 1610612733) (- 2147483644)],
          waited = True\<rparr> = []"
  by (simp add: StartBatchedJobsChunked_def Let_def to_int32_def signed_divide_int_def
        chunk_loop.simps invocations_def range_loop.simps)

subsection \<open>ExperienceBuffer: overbatching loses no sample\<close>

lemma to_int64_id: "- (2 ^ 63) \<le> x \<Longrightarrow> x < 2 ^ 63 \<Longrightarrow> to_int64 x = x"
  by (simp add: to_int64_def)

declare batch_loop.simps [simp del]

lemma batch_loop_over_last:
  assumes "0 \<le> startIdx" "startIdx < expSize" "0 < batchSize"
    "expSize < startIdx + 2 * batchSize" "startIdx + 2 * batchSize < 2 ^ 63"
  shows "batch_loop startIdx expSize batchSize True = Inr [(startIdx, expSize - startIdx)]"
proof -
  have 1: "to_int64 (startIdx + batchSize) = startIdx + batchSize"
    using assms by (intro to_int64_id) linarith+
  have 2: "to_int64 (startIdx + batchSize + batchSize) = startIdx + 2 * batchSize"
    using assms by (simp add: to_int64_id)
  have 3: "to_int64 (expSize - startIdx) = expSize - startIdx"
    using assms by (intro to_int64_id) linarith+
  have 4: "to_int64 (2 * batchSize + startIdx) = 2 * batchSize + startIdx"
    using assms by (intro to_int64_id) linarith+
  have 5: "to_int64 batchSize = batchSize"
    using assms by (intro to_int64_id) linarith+
  show ?thesis using assms
    by (subst batch_loop.simps) (simp add: Let_def 1 2 3 4 5)
qed

lemma batch_loop_over_step:
  assumes "0 \<le> startIdx" "0 < batchSize" "startIdx + 2 * batchSize \<le> expSize"
    "expSize < 2 ^ 63"
  shows "batch_loop startIdx expSize batchSize True =
     (case batch_loop (startIdx + batchSize) expSize batchSize True of
        Inl e \<Rightarrow> Inl e
      | Inr rest \<Rightarrow> Inr ((startIdx, batchSize) # rest))"
proof -
  have 1: "to_int64 (startIdx + batchSize) = startIdx + batchSize"
    using assms by (intro to_int64_id) linarith+
  have 2: "to_int64 (startIdx + batchSize + batchSize) = startIdx + 2 * batchSize"
    using assms by (simp add: to_int64_id)
  have 3: "to_int64 batchSize = batchSize"
    using assms by (intro to_int64_id) linarith+
  have 4: "to_int64 (2 * batchSize + startIdx) = 2 * batchSize + startIdx"
    using assms by (intro to_int64_id) linarith+
  show ?thesis using assms
    by (subst batch_loop.simps) (simp add: Let_def 1 2 3 4 cong: sum.case_cong)
qed

lemma batch_loop_over_shape:
  "0 < B \<Longrightarrow> 0 \<le> s \<Longrightarrow> s + B \<le> L \<Longrightarrow> L + B < 2 ^ 63 \<Longrightarrow>
   batch_loop s L B True =
     Inr (map (\<lambda>k. (s + int k * B, B)) [0..<nat ((L - s) div B) - 1] @
          [(s + ((L - s) div B - 1) * B, B + (L - s) mod B)])"
proof (induction "nat (L - s)" arbitrary: s rule: less_induct)
  case less
  show ?case
  proof (cases "L < s + 2 * B")
    case True
    then have "(L - s) div B = 1"
      using less.prems by (intro int_div_pos_eq [where r = "L - s - B"]) auto
    moreover from this have "(L - s) mod B = L - s - B"
      using mult_div_mod_eq [of B "L - s"] by simp
    moreover have "batch_loop s L B True = Inr [(s, L - s)]"
      using True less.prems by (intro batch_loop_over_last) linarith+
    ultimately show ?thesis by simp
  next
    case False
    then have step: "batch_loop s L B True =
        (case batch_loop (s + B) L B True of Inl e \<Rightarrow> Inl e | Inr rest \<Rightarrow> Inr ((s, B) # rest))"
      using less.prems by (intro batch_loop_over_step) linarith+
    have d: "(L - s) div B = (L - (s + B)) div B + 1"
      using less.prems(1) div_add_self2 [of B "L - (s + B)"] by (simp add: algebra_simps)
    have m: "(L - s) mod B = (L - (s + B)) mod B"
      using mod_add_self2 [of "L - (s + B)" B] by (simp add: algebra_simps)
    have "0 < (L - (s + B)) div B"
      using False less.prems(1) by (subst pos_imp_zdiv_pos_iff) auto
    then have ge1: "1 \<le> (L - (s + B)) div B" by linarith
    have IH: "batch_loop (s + B) L B True =
       Inr (map (\<lambda>k. (s + B + int k * B, B)) [0..<nat ((L - (s + B)) div B) - 1] @
            [(s + B + ((L - (s + B)) div B - 1) * B, B + (L - (s + B)) mod B)])"
      using False less.prems by (intro less.hyps) auto
    have n: "nat ((L - (s + B)) div B + 1) - 1 = Suc (nat ((L - (s + B)) div B) - 1)"
      using ge1 by linarith
    have shift: "map (\<lambda>k. (s + int k * B, B)) [0..<Suc (nat ((L - (s + B)) div B) - 1)] =
          (s, B) # map (\<lambda>k. (s + B + int k * B, B)) [0..<nat ((L - (s + B)) div B) - 1]"
      by (simp add: upt_conv_Cons map_Suc_upt [symmetric] algebra_simps del: upt_Suc)
    show ?thesis
      unfolding step IH d m n shift by (simp add: algebra_simps)
  qed
qed

lemma batch_loop_over_Inr:
  "0 < B \<Longrightarrow> 0 \<le> s \<Longrightarrow> s + B \<le> L \<Longrightarrow> L + B < 2 ^ 63 \<Longrightarrow> length xs = nat L \<Longrightarrow>
   \<exists>ps. batch_loop s L B True = Inr ps
      \<and> sum_list (map snd ps) = L - s
      \<and> (\<forall>p\<in>set ps. B \<le> snd p \<and> s \<le> fst p \<and> fst p + snd p \<le> L)
      \<and> concat (map (\<lambda>(startIdx, cur). take (nat cur) (drop (nat startIdx) xs)) ps)
           = drop (nat s) xs"
proof (induction "nat (L - s)" arbitrary: s rule: less_induct)
  case less
  show ?case
  proof (cases "L < s + 2 * B")
    case True
    have "batch_loop s L B True = Inr [(s, L - s)]"
      using True less.prems by (intro batch_loop_over_last) linarith+
    then show ?thesis using less.prems by simp
  next
    case False
    then have step: "batch_loop s L B True =
        (case batch_loop (s + B) L B True of Inl e \<Rightarrow> Inl e | Inr rest \<Rightarrow> Inr ((s, B) # rest))"
      using less.prems by (intro batch_loop_over_step) linarith+
    have pre: "nat (L - (s + B)) < nat (L - s)" "0 \<le> s + B" "s + B + B \<le> L"
      using False less.prems by auto
    from less.hyps [OF pre(1) less.prems(1) pre(2) pre(3) less.prems(4,5)]
    obtain ps where ps: "batch_loop (s + B) L B True = Inr ps"
      and sum: "sum_list (map snd ps) = L - (s + B)"
      and ge: "\<forall>p\<in>set ps. B \<le> snd p \<and> s + B \<le> fst p \<and> fst p + snd p \<le> L"
      and cat: "concat (map (\<lambda>(startIdx, cur). take (nat cur) (drop (nat startIdx) xs)) ps)
              = drop (nat (s + B)) xs"
      by blast
    have eq: "batch_loop s L B True = Inr ((s, B) # ps)" by (simp add: step ps)
    have 1: "sum_list (map snd ((s, B) # ps)) = L - s" using sum by simp
    have 2: "\<forall>p\<in>set ((s, B) # ps). B \<le> snd p \<and> s \<le> fst p \<and> fst p + snd p \<le> L"
      using ge less.prems False by auto
    have 3: "concat (map (\<lambda>(startIdx, cur). take (nat cur) (drop (nat startIdx) xs)) ((s, B) # ps))
              = drop (nat s) xs"
    proof -
      have "drop (nat (s + B)) xs = drop (nat B) (drop (nat s) xs)"
        using less.prems by (simp add: nat_add_distrib add.commute)
      then have "take (nat B) (drop (nat s) xs) @ drop (nat (s + B)) xs = drop (nat s) xs"
        by (simp only: append_take_drop_id)
      then show ?thesis using cat by (simp only: list.map concat.simps prod.case)
    qed
    show ?thesis using eq 1 2 3 by blast
  qed
qed

lemma fold_max_ge: "(m::int) \<le> fold max xs m"
  by (induction xs arbitrary: m) (auto intro: order_trans [OF max.cobounded2])

lemma fold_max_mem: "(x::int) \<in> set xs \<Longrightarrow> x \<le> fold max xs m"
proof (induction xs arbitrary: m)
  case Nil
  then show ?case by simp
next
  case (Cons y ys)
  show ?case
  proof (cases "x = y")
    case True
    have "x \<le> max y m" using True by simp
    also have "\<dots> \<le> fold max ys (max y m)" by (rule fold_max_ge)
    finally show ?thesis by simp
  next
    case False
    then show ?thesis using Cons by simp
  qed
qed

lemma GetSamples_clamped:
  assumes "data_states buf = Some statesRows" and "0 < rowLimit_of statesRows (data_actions buf)"
    and "0 < n"
  shows "GetSamples buf indices n =
           map (\<lambda>i. min i (rowLimit_of statesRows (data_actions buf) - 1)) (take (nat n) indices)"
proof (cases "fold max (take (nat n) indices) 0 \<ge> rowLimit_of statesRows (data_actions buf)")
  case True
  then show ?thesis using assms by (simp add: GetSamples_def Let_def)
next
  case False
  have "\<forall>i\<in>set (take (nat n) indices). min i (rowLimit_of statesRows (data_actions buf) - 1) = i"
  proof
    fix i assume "i \<in> set (take (nat n) indices)"
    then have "i \<le> fold max (take (nat n) indices) 0" by (rule fold_max_mem)
    then show "min i (rowLimit_of statesRows (data_actions buf) - 1) = i" using False by simp
  qed
  then have "map (\<lambda>i. min i (rowLimit_of statesRows (data_actions buf) - 1)) (take (nat n) indices)
               = take (nat n) indices"
    by (simp add: map_idI)
  then show ?thesis using False assms by (simp add: GetSamples_def Let_def)
qed

lemma sdiv_nonneg: "0 < (L::int) \<Longrightarrow> 0 < B \<Longrightarrow> 0 \<le> L sdiv B \<and> L sdiv B \<le> L"
proof
  assume "0 < L" "0 < B"
  then show "0 \<le> L sdiv B" by (simp add: signed_divide_int_def pos_imp_zdiv_nonneg_iff)
  have "L div B \<le> L div 1" using \<open>0 < L\<close> \<open>0 < B\<close> by (intro zdiv_mono2) linarith+
  then show "L sdiv B \<le> L" using \<open>0 < L\<close> \<open>0 < B\<close> by (simp add: signed_divide_int_def)
qed

lemma batch_loop_over_all:
  assumes "0 < B" "0 < L" "B < 2 ^ 62" "L + B < 2 ^ 63" "length xs = nat L"
  shows "\<exists>ps. batch_loop 0 L B True = Inr ps
      \<and> sum_list (map snd ps) = L
      \<and> (\<forall>p\<in>set ps. 0 < snd p \<and> 0 \<le> fst p \<and> fst p + snd p \<le> L \<and> (B \<le> L \<longrightarrow> B \<le> snd p))
      \<and> concat (map (\<lambda>(startIdx, cur). take (nat cur) (drop (nat startIdx) xs)) ps) = xs
      \<and> (L < B \<longrightarrow> ps = [(0, L)])
      \<and> (B \<le> L \<longrightarrow>
           ps = map (\<lambda>k. (int k * B, B)) [0..<nat (L div B) - 1] @
                [((L div B - 1) * B, B + L mod B)])"
proof (cases "B \<le> L")
  case True
  obtain ps where ps: "batch_loop 0 L B True = Inr ps"
    and sum: "sum_list (map snd ps) = L - 0"
    and ge: "\<forall>p\<in>set ps. B \<le> snd p \<and> 0 \<le> fst p \<and> fst p + snd p \<le> L"
    and cat: "concat (map (\<lambda>(startIdx, cur). take (nat cur) (drop (nat startIdx) xs)) ps)
              = drop (nat 0) xs"
    using batch_loop_over_Inr [of B 0 L xs] True assms by auto
  have shape: "batch_loop 0 L B True =
     Inr (map (\<lambda>k. (0 + int k * B, B)) [0..<nat ((L - 0) div B) - 1] @
          [(0 + ((L - 0) div B - 1) * B, B + (L - 0) mod B)])"
    using True assms by (intro batch_loop_over_shape) auto
  have "ps = map (\<lambda>k. (int k * B, B)) [0..<nat (L div B) - 1] @
                [((L div B - 1) * B, B + L mod B)]"
    using shape ps by simp
  moreover have "\<forall>p\<in>set ps. 0 < snd p \<and> 0 \<le> fst p \<and> fst p + snd p \<le> L \<and> (B \<le> L \<longrightarrow> B \<le> snd p)"
    using ge assms(1) by auto
  ultimately show ?thesis using ps sum cat True by simp
next
  case False
  have "2 * B < 2 ^ 63" using assms(3) by simp
  then have "batch_loop 0 L B True = Inr [(0, L - 0)]"
    using False assms by (intro batch_loop_over_last) auto
  then show ?thesis using False assms by simp
qed

lemma GetAllBatchesShuffled_over_eq:
  assumes st: "data_states buf = Some n" and L: "L = rowLimit_of n (data_actions buf)"
    and pos: "0 < L" "0 < B" and lim: "L + B < 2 ^ 63"
    and idx: "idx = shuffle (if length (shuffledIndices buf) \<noteq> nat L then [0..L - 1]
                             else shuffledIndices buf)"
    and ps: "batch_loop 0 L B True = Inr ps" and cur: "\<forall>p\<in>set ps. 0 < snd p"
  shows "GetAllBatchesShuffled shuffle buf B True =
     Inr (map (\<lambda>(startIdx, cur).
                 map (\<lambda>i. min i (L - 1)) (take (nat cur) (drop (nat startIdx) idx)))
            ps,
          buf\<lparr>shuffledIndices := idx\<rparr>)"
proof -
  define buf' where "buf' = buf\<lparr>shuffledIndices := idx\<rparr>"
  have st': "data_states buf' = Some n" "data_actions buf' = data_actions buf"
    using st by (simp_all add: buf'_def)
  have n: "0 < n" using pos(1) L by (simp add: rowLimit_of_def split: option.splits)
  have q: "0 \<le> L sdiv B" "L sdiv B \<le> L" using sdiv_nonneg [OF pos] by simp_all
  have w1: "to_int64 (L sdiv B) = L sdiv B"
    using q lim pos by (intro to_int64_id) linarith+
  have w2: "to_int64 (L sdiv B + 1) = L sdiv B + 1"
    using q lim pos by (intro to_int64_id) linarith+
  have gs: "GetSamples buf' (drop (nat s) idx) c =
              map (\<lambda>i. min i (L - 1)) (take (nat c) (drop (nat s) idx))"
    if "(s, c) \<in> set ps" for s c
  proof -
    have "0 < c" using cur that by auto
    then show ?thesis
      using GetSamples_clamped [of buf' n c "drop (nat s) idx"] st' L pos by simp
  qed
  have "map (\<lambda>(startIdx, cur). GetSamples buf' (drop (nat startIdx) idx) cur) ps
      = map (\<lambda>(startIdx, cur). map (\<lambda>i. min i (L - 1)) (take (nat cur) (drop (nat startIdx) idx)))
          ps"
    by (rule map_cong [OF refl]) (auto simp: gs)
  then show ?thesis
    using st n pos q(1) L [symmetric]
    by (simp add: GetAllBatchesShuffled_def Let_def idx [symmetric] buf'_def [symmetric]
          w1 w2 ps)
qed

text \<open>
  Claim C5, as amended. For a buffer of \<^verbatim>\<open>L > 0\<close> rows (the rows of \<^verbatim>\<open>data.states\<close>, or the
  fewer rows of \<^verbatim>\<open>data.actions\<close>) and every \<^verbatim>\<open>batchSize B > 0\<close> with \<^verbatim>\<open>B < 2^62\<close> and
  \<^verbatim>\<open>L + B < 2^63\<close>, \<^verbatim>\<open>GetAllBatchesShuffled\<close> with overbatching returns
  batches whose lengths sum to \<^verbatim>\<open>L\<close> (their concatenation is the whole shuffled index
  vector), and no batch is shorter than \<^verbatim>\<open>B\<close> unless it is the only one. When \<^verbatim>\<open>B <= L\<close>
  there are \<^verbatim>\<open>L div B\<close> batches, all of length \<^verbatim>\<open>B\<close> but the last, which has the remainder
  \<^verbatim>\<open>L mod B\<close> merged into it.
\<close>

theorem GetAllBatchesShuffled_overbatching:
  assumes perm: "\<And>xs. mset (shuffle xs) = mset xs"
    and st: "data_states buf = Some n"
    and rows: "L = (case data_actions buf of None \<Rightarrow> n | Some a \<Rightarrow> min n a)"
    and pos: "0 < L" "0 < B"
    and lim: "B < 2 ^ 62" "L + B < 2 ^ 63"
  shows "\<exists>batches buf'.
           GetAllBatchesShuffled shuffle buf B True = Inr (batches, buf')
         \<and> int (sum_list (map length batches)) = L
         \<and> (\<forall>b\<in>set batches. B \<le> int (length b) \<or> length batches = 1)
         \<and> concat batches = map (\<lambda>i. min i (L - 1)) (shuffledIndices buf')
         \<and> length (shuffledIndices buf') = nat L
         \<and> (B \<le> L \<longrightarrow>
               int (length batches) = L div B
             \<and> (\<forall>b\<in>set (butlast batches). int (length b) = B)
             \<and> int (length (last batches)) = B + L mod B)
         \<and> (L < B \<longrightarrow> length batches = 1)"
proof -
  define idx where "idx = shuffle (if length (shuffledIndices buf) \<noteq> nat L then [0..L - 1]
                                   else shuffledIndices buf)"
  define g where "g = (\<lambda>(startIdx, cur).
                 map (\<lambda>i. min i (L - 1)) (take (nat cur) (drop (nat startIdx) idx)))"
  have L: "L = rowLimit_of n (data_actions buf)"
    using rows by (simp add: rowLimit_of_def split: option.splits)
  have len_idx: "length idx = nat L"
  proof -
    have "length idx = size (mset idx)" by simp
    also have "\<dots> = size (mset (if length (shuffledIndices buf) \<noteq> nat L then [0..L - 1]
                                   else shuffledIndices buf))"
      unfolding idx_def perm ..
    also have "\<dots> = nat L" using pos(1) by simp
    finally show ?thesis .
  qed
  obtain ps where ps: "batch_loop 0 L B True = Inr ps"
    and sum_ps: "sum_list (map snd ps) = L"
    and bounds: "\<forall>p\<in>set ps. 0 < snd p \<and> 0 \<le> fst p \<and> fst p + snd p \<le> L \<and> (B \<le> L \<longrightarrow> B \<le> snd p)"
    and cat_ps: "concat (map (\<lambda>(startIdx, cur). take (nat cur) (drop (nat startIdx) idx)) ps) = idx"
    and single: "L < B \<longrightarrow> ps = [(0, L)]"
    and ps_eq: "B \<le> L \<longrightarrow>
           ps = map (\<lambda>k. (int k * B, B)) [0..<nat (L div B) - 1] @
                [((L div B - 1) * B, B + L mod B)]"
    using batch_loop_over_all [OF pos(2) pos(1) lim len_idx] by blast
  have cur: "\<forall>p\<in>set ps. 0 < snd p" using bounds by simp
  have eq: "GetAllBatchesShuffled shuffle buf B True = Inr (map g ps, buf\<lparr>shuffledIndices := idx\<rparr>)"
    unfolding g_def using st L pos lim(2) idx_def ps cur by (rule GetAllBatchesShuffled_over_eq)
  have len_g: "int (length (g p)) = snd p" if "p \<in> set ps" for p
  proof -
    obtain s c where p: "p = (s, c)" by (cases p)
    have "0 < c \<and> 0 \<le> s \<and> s + c \<le> L" using bounds that p by auto
    then have "int (min (length idx - nat s) (nat c)) = c" using len_idx by linarith
    then show ?thesis by (simp add: g_def p)
  qed
  have lens: "map (\<lambda>b. int (length b)) (map g ps) = map snd ps"
    by (simp add: len_g)
  have sum: "int (sum_list (map length (map g ps))) = L"
  proof -
    have "int (sum_list (map length (map g ps))) = sum_list (map (\<lambda>b. int (length b)) (map g ps))"
      by (induction ps) simp_all
    also have "\<dots> = sum_list (map snd ps)" by (simp only: lens)
    also have "\<dots> = L" by (rule sum_ps)
    finally show ?thesis .
  qed
  have ge: "\<forall>b\<in>set (map g ps). B \<le> int (length b) \<or> length (map g ps) = 1"
  proof (cases "B \<le> L")
    case True
    then show ?thesis using bounds len_g by auto
  next
    case False
    then show ?thesis using single by simp
  qed
  have cat: "concat (map g ps) = map (\<lambda>i. min i (L - 1)) idx"
  proof -
    have "concat (map g ps) =
            map (\<lambda>i. min i (L - 1))
              (concat (map (\<lambda>(startIdx, cur). take (nat cur) (drop (nat startIdx) idx)) ps))"
      by (simp add: map_concat g_def o_def split_def)
    then show ?thesis by (simp only: cat_ps)
  qed
  have shape: "int (length (map g ps)) = L div B
             \<and> (\<forall>b\<in>set (butlast (map g ps)). int (length b) = B)
             \<and> int (length (last (map g ps))) = B + L mod B" if "B \<le> L"
  proof -
    let ?k = "nat (L div B) - 1"
    have ps_eq': "ps = map (\<lambda>k. (int k * B, B)) [0..<?k] @ [((L div B - 1) * B, B + L mod B)]"
      using ps_eq that by simp
    have "0 < L div B" using that pos by (subst pos_imp_zdiv_pos_iff) auto
    then have l: "int (length ps) = L div B" by (subst ps_eq') simp
    have bl: "butlast ps = map (\<lambda>k. (int k * B, B)) [0..<?k]"
      by (subst ps_eq') (simp add: butlast_append)
    have la: "last ps = ((L div B - 1) * B, B + L mod B)"
      by (subst ps_eq') simp
    have ne: "ps \<noteq> []" by (subst ps_eq') simp
    have 1: "int (length (map g ps)) = L div B" using l by simp
    have 2: "\<forall>b\<in>set (butlast (map g ps)). int (length b) = B"
    proof
      fix b assume "b \<in> set (butlast (map g ps))"
      then obtain p where p: "p \<in> set (butlast ps)" "b = g p"
        by (auto simp: map_butlast [symmetric])
      then have "p \<in> set ps" by (auto dest: in_set_butlastD)
      moreover have "snd p = B" using p(1) by (auto simp: bl)
      ultimately show "int (length b) = B" using len_g p(2) by simp
    qed
    have 3: "int (length (last (map g ps))) = B + L mod B"
    proof -
      have "last ps \<in> set ps" using ne by simp
      then have "int (length (g (last ps))) = snd (last ps)" by (rule len_g)
      then show ?thesis using ne by (simp add: last_map la)
    qed
    show ?thesis using 1 2 3 by blast
  qed
  have one: "length (map g ps) = 1" if "L < B" using single that by simp
  show ?thesis
    using eq sum ge cat len_idx shape one
    by (intro exI [of _ "map g ps"] exI [of _ "buf\<lparr>shuffledIndices := idx\<rparr>"]) simp
qed

theorem GetAllBatchesShuffled_overbatching_witness:
  "\<exists>batches buf'.
     GetAllBatchesShuffled rev \<lparr>data_states = Some 7, data_actions = Some 9, shuffledIndices = []\<rparr> 2 True
       = Inr (batches, buf')
     \<and> map length batches = [2, 2, 3]"
proof -
  have perm: "\<And>xs :: int list. mset (rev xs) = mset xs" by simp
  have L: "(7::int) = (case data_actions \<lparr>data_states = Some 7, data_actions = Some 9,
                                        shuffledIndices = []\<rparr> of
                        None \<Rightarrow> 7 | Some a \<Rightarrow> min 7 a)"
    by simp
  obtain batches buf' where
    r: "GetAllBatchesShuffled rev \<lparr>data_states = Some 7, data_actions = Some 9, shuffledIndices = []\<rparr> 2 True
          = Inr (batches, buf')"
    and len: "int (length batches) = 7 div 2"
    and bl: "\<forall>b\<in>set (butlast batches). int (length b) = 2"
    and la: "int (length (last batches)) = 2 + 7 mod 2"
    using GetAllBatchesShuffled_overbatching [OF perm _ L, where B = 2] by auto
  from len have "length batches = 3" by simp
  then obtain a b c where abc: "batches = [a, b, c]"
    by (auto simp: length_Suc_conv numeral_3_eq_3)
  then have "map length batches = [2, 2, 3]" using bl la by simp
  then show ?thesis using r by (intro exI [of _ batches] exI [of _ buf']) simp
qed

text \<open>
  Claim C5 as stated speaks of every \<^verbatim>\<open>batchSize B > 0\<close>. For a buffer of 5 rows and
  \<^verbatim>\<open>B = 2^62 + 1\<close> the look-ahead \<^verbatim>\<open>endIdx + batchSize\<close> wraps around to a negative number,
  so the rows are not merged into one batch; \<^verbatim>\<open>endIdx = B\<close> is beyond the 5 rows and the
  loop breaks: no batch is returned, and the lengths sum to 0.
\<close>

theorem GetAllBatchesShuffled_overflow_counterexample:
  "GetAllBatchesShuffled rev \<lparr>data_states = Some 5, data_actions = None, shuffledIndices = []\<rparr>
       (2 ^ 62 + 1) True
     = Inr ([], \<lparr>data_states = Some 5, data_actions = None, shuffledIndices = [4, 3, 2, 1, 0]\<rparr>)"
  by (simp add: GetAllBatchesShuffled_def rowLimit_of_def Let_def batch_loop.simps to_int64_def
        signed_divide_int_def signed_modulo_int_def upto.simps)

subsection \<open>GAE::Compute: recurrence, clip fraction, disabled normalization\<close>

declare unrolled_loop.simps [simp del]

lemma take_Suc0_nth: "0 < length xs \<Longrightarrow> take (Suc 0) xs = [xs ! 0]"
  by (cases xs) simp_all

lemma take8_nth:
  "8 \<le> length xs \<Longrightarrow>
   take 8 xs = [xs ! 0, xs ! 1, xs ! 2, xs ! 3, xs ! 4, xs ! 5, xs ! 6, xs ! 7]"
  by (auto simp add: eval_nat_numeral Suc_le_length_iff)

lemma map_block8:
  assumes "8 \<le> length xs"
  shows "map f xs = [f (xs ! 0), f (xs ! 1), f (xs ! 2), f (xs ! 3), f (xs ! 4), f (xs ! 5),
                     f (xs ! 6), f (xs ! 7)] @ map f (drop 8 xs)"
proof -
  have "map f xs = map f (take 8 xs @ drop 8 xs)" by simp
  also have "\<dots> = map f (take 8 xs) @ map f (drop 8 xs)" by (rule map_append)
  finally show ?thesis by (simp only: take8_nth [OF assms] list.map)
qed

lemma sum_block8:
  fixes g :: "real \<Rightarrow> real"
  assumes "8 \<le> length xs"
  shows "(\<Sum>r\<leftarrow>xs. g r) =
           (g (xs ! 0) + g (xs ! 1) + g (xs ! 2) + g (xs ! 3) + g (xs ! 4) + g (xs ! 5)
            + g (xs ! 6) + g (xs ! 7)) + (\<Sum>r\<leftarrow>drop 8 xs. g r)"
  by (subst map_block8 [OF assms]) (simp add: algebra_simps)

lemma remainder_loop_eq:
  "remainder_loop k sc cr xs (acc, t, tc) =
     (acc @ map (\<lambda>r. clip_if sc cr (r * k)) xs,
      t + (\<Sum>r\<leftarrow>xs. \<bar>r * k\<bar>),
      tc + (\<Sum>r\<leftarrow>xs. \<bar>clip_if sc cr (r * k)\<bar>))"
  by (induction xs arbitrary: acc t tc) (simp_all add: Let_def algebra_simps)

lemma unrolled_loop_eq:
  "unrolled_loop k sc cr xs (acc, t, tc) =
     (acc @ map (\<lambda>r. clip_if sc cr (r * k)) xs,
      t + (\<Sum>r\<leftarrow>xs. \<bar>r * k\<bar>),
      tc + (\<Sum>r\<leftarrow>xs. \<bar>clip_if sc cr (r * k)\<bar>))"
proof (induction "length xs" arbitrary: xs acc t tc rule: less_induct)
  case less
  show ?case
  proof (cases "8 \<le> length xs")
    case False
    then show ?thesis by (subst unrolled_loop.simps) (simp add: remainder_loop_eq)
  next
    case True
    have xs: "xs = [xs ! 0, xs ! 1, xs ! 2, xs ! 3, xs ! 4, xs ! 5, xs ! 6, xs ! 7] @ drop 8 xs"
      using take8_nth [OF True] append_take_drop_id [of 8 xs] by simp
    have lt: "length (drop 8 xs) < length xs" using True by simp
    show ?thesis
      apply (subst unrolled_loop.simps)
      apply (simp only: True if_True Let_def less.hyps [OF lt])
      apply (subst map_block8 [OF True, of "\<lambda>r. clip_if sc cr (r * k)"])
      apply (subst sum_block8 [OF True, of "\<lambda>r. \<bar>r * k\<bar>"])
      apply (subst sum_block8 [OF True, of "\<lambda>r. \<bar>clip_if sc cr (r * k)\<bar>"])
      apply (simp add: algebra_simps)
      done
  qed
qed


lemma find_tidx_notin: "s \<notin> set xs \<Longrightarrow> find_tidx xs s ti = - 1"
  by (induction xs arbitrary: ti) auto



lemma filter_upt_take:
  "s \<le> length ts \<Longrightarrow> length (filter (\<lambda>i. ts ! i = t) [0..<s]) = length (filter (\<lambda>x. x = t) (take s ts))"
proof -
  assume "s \<le> length ts"
  then have "take s ts = map ((!) ts) [0..<s]"
    by (simp add: list_eq_iff_nth_eq)
  then show ?thesis by (simp add: filter_map o_def)
qed




lemma Compute_explicit:
  assumes "rews \<noteq> []" and "length rews \<le> length terminals" and "length rews \<le> length valPreds"
  shows "Compute rews terminals valPreds tvo gamma lambda returnStd clipRange =
     (let n = length rews;
          tsi = truncStepIndices_of terminals n;
          nv = map (nextValPred_of terminals valPreds tvo tsi n) [0..<n];
          nd = map (\<lambda>step. notDoneNotTrunc_of (terminals ! step)) [0..<n];
          rp = map (reward_used returnStd clipRange) rews;
          res = gae_loop gamma (gamma * lambda) rp rews nv nd valPreds n
                  (0, 0, replicate n 0, replicate n 0)
      in if tvo \<noteq> None \<and> length tsi \<noteq> length (the tvo) then Inl FatalError
         else Inr \<lparr>outAdvantages = fst (snd (snd res)),
                   outTargetValues = map2 (+) (take n valPreds) (fst (snd (snd res))),
                   outReturns = snd (snd (snd res)),
                   outRewClipPortion =
                     (if returnStd \<noteq> 0 \<and> returnStd \<noteq> 1
                      then clip_portion rews returnStd clipRange else 0)\<rparr>)"
proof -
  have "reward_used 0 clipRange = (\<lambda>r. r)" "reward_used 1 clipRange = (\<lambda>r. r)"
    by (simp_all add: fun_eq_iff reward_used_def)
  then have id: "map (reward_used 0 clipRange) rews = rews"
    "map (reward_used 1 clipRange) rews = rews"
    by simp_all
  have norm: "returnStd \<noteq> 0 \<Longrightarrow> returnStd \<noteq> 1 \<Longrightarrow>
      reward_used returnStd clipRange
        = (\<lambda>r. clip_if (clipRange > 0) clipRange (r * (1 / returnStd)))"
    by (simp add: fun_eq_iff reward_used_def)
  show ?thesis
    using assms
    by (cases tvo)
       (auto simp add: Compute_def Let_def unrolled_loop_eq split_beta id norm clip_portion_def
          simp del: One_nat_def)
qed


lemma length_truncStepIndices:
  "n \<le> length terminals \<Longrightarrow>
   length (truncStepIndices_of terminals n) = length (filter (\<lambda>t. t = TRUNCATED) (take n terminals))"
  by (simp add: truncStepIndices_of_def filter_upt_take)

lemma Compute_Inr_iff:
  assumes "rews \<noteq> []"
  shows "(\<exists>out. Compute rews terminals valPreds tvo gamma lambda returnStd clipRange = Inr out)
     \<longleftrightarrow> length rews \<le> length terminals \<and> length rews \<le> length valPreds
         \<and> truncs_match terminals tvo (length rews)"
proof (cases "length rews \<le> length terminals \<and> length rews \<le> length valPreds")
  case False
  then show ?thesis using assms by (auto simp add: Compute_def Let_def)
next
  case True
  then show ?thesis
    using assms
    by (cases tvo)
       (auto simp add: Compute_explicit Let_def truncs_match_def length_truncStepIndices)
qed








lemma abs_clip_if: "0 < c \<Longrightarrow> \<bar>clip_if True c x\<bar> = min \<bar>x\<bar> c"
  by (auto simp add: clip_if_def RS_CLAMP_def min_def max_def abs_if)

lemma sum_abs_clip_mono:
  assumes "0 < c1" "c1 \<le> c2"
  shows "(\<Sum>r\<leftarrow>rews. \<bar>clip_if (c1 > 0) c1 (f r)\<bar>) \<le> (\<Sum>r\<leftarrow>rews. \<bar>clip_if (c2 > 0) c2 (f r)\<bar>)"
proof -
  have "0 < c2" using assms by simp
  then show ?thesis using assms
    by (intro sum_list_mono) (simp add: abs_clip_if)
qed

lemma sum_abs_clip_le:
  assumes "0 < c"
  shows "(\<Sum>r\<leftarrow>rews. \<bar>clip_if (c > 0) c (f r)\<bar>) \<le> (\<Sum>r\<leftarrow>rews. \<bar>f r\<bar>)"
  using assms by (intro sum_list_mono) (simp add: abs_clip_if)

lemma sum_abs_clip_eq:
  assumes "0 < c" "\<forall>r\<in>set rews. \<bar>f r\<bar> \<le> c"
  shows "(\<Sum>r\<leftarrow>rews. \<bar>clip_if (c > 0) c (f r)\<bar>) = (\<Sum>r\<leftarrow>rews. \<bar>f r\<bar>)"
proof -
  have "map (\<lambda>r. \<bar>clip_if (c > 0) c (f r)\<bar>) rews = map (\<lambda>r. \<bar>f r\<bar>) rews"
    using assms by (intro map_cong) (simp_all add: abs_clip_if)
  then show ?thesis by (simp only:)
qed

lemma clip_portion_mono:
  assumes "0 < c1" "c1 \<le> c2"
  shows "clip_portion rews returnStd c2 \<le> clip_portion rews returnStd c1"
  unfolding clip_portion_def
  using sum_abs_clip_mono [OF assms, of "\<lambda>r. r * (1 / returnStd)" rews]
  by (intro divide_right_mono) (simp_all add: max_def)

lemma clip_portion_nonneg:
  assumes "0 < c"
  shows "0 \<le> clip_portion rews returnStd c"
  unfolding clip_portion_def
  using sum_abs_clip_le [OF assms, of "\<lambda>r. r * (1 / returnStd)" rews]
  by (intro divide_nonneg_nonneg) (simp_all add: max_def)

lemma clip_portion_zero:
  assumes "0 < c" "\<forall>r\<in>set rews. \<bar>r / returnStd\<bar> \<le> c"
  shows "clip_portion rews returnStd c = 0"
  unfolding clip_portion_def
  using sum_abs_clip_eq [OF assms(1), of rews "\<lambda>r. r * (1 / returnStd)"] assms(2)
  by simp

lemma Compute_portion:
  assumes "Compute rews terminals valPreds tvo gamma lambda returnStd clipRange = Inr out"
  shows "outRewClipPortion out =
          (if rews \<noteq> [] \<and> returnStd \<noteq> 0 \<and> returnStd \<noteq> 1
           then clip_portion rews returnStd clipRange else 0)"
proof (cases "rews = []")
  case True
  then show ?thesis using assms by (auto simp add: Compute_def)
next
  case False
  then have "length rews \<le> length terminals \<and> length rews \<le> length valPreds"
    using Compute_Inr_iff [OF False, of terminals valPreds tvo gamma lambda returnStd clipRange] assms
    by auto
  then show ?thesis using assms False
    by (auto simp add: Compute_explicit Let_def split: if_splits)
qed

lemma Compute_returns_indep:
  "(\<exists>out. Compute rews terminals valPreds tvo gamma lambda returnStd clipRange = Inr out)
     \<longleftrightarrow> (\<exists>out. Compute rews terminals valPreds tvo gamma' lambda' returnStd' clipRange' = Inr out)"
proof (cases "rews = []")
  case True
  then show ?thesis by (simp add: Compute_def)
next
  case False
  then show ?thesis by (simp only: Compute_Inr_iff [OF False])
qed

text \<open>
  Claim C9. For fixed rewards, terminals, value predictions, \<^verbatim>\<open>gamma\<close>, \<^verbatim>\<open>lambda\<close> and a
  fixed \<^verbatim>\<open>returnStd\<close> other than 0 and 1, the clip fraction reported by \<^verbatim>\<open>GAE::Compute\<close> is
  monotonically non-increasing in \<^verbatim>\<open>clipRange\<close> over \<^verbatim>\<open>clipRange > 0\<close> (where the call
  returns for one clip range it returns for every other), never negative, and 0 for every
  \<^verbatim>\<open>clipRange\<close> that is at least the largest absolute normalized reward.
\<close>

theorem GAE_clip_portion_monotone:
  assumes "returnStd \<noteq> 0" and "returnStd \<noteq> 1" and "0 < c1" and "c1 \<le> c2"
    and "Compute rews terminals valPreds tvo gamma lambda returnStd c1 = Inr o1"
  shows "\<exists>o2. Compute rews terminals valPreds tvo gamma lambda returnStd c2 = Inr o2
            \<and> outRewClipPortion o2 \<le> outRewClipPortion o1
            \<and> 0 \<le> outRewClipPortion o2
            \<and> ((\<forall>r\<in>set rews. \<bar>r / returnStd\<bar> \<le> c2) \<longrightarrow> outRewClipPortion o2 = 0)"
proof -
  obtain o2 where o2: "Compute rews terminals valPreds tvo gamma lambda returnStd c2 = Inr o2"
    using Compute_returns_indep [of rews terminals valPreds tvo gamma lambda returnStd c1
        gamma lambda returnStd c2] assms(5) by auto
  have c2: "0 < c2" using assms(3,4) by simp
  have p1: "outRewClipPortion o1 = (if rews \<noteq> [] then clip_portion rews returnStd c1 else 0)"
    using Compute_portion [OF assms(5)] assms(1,2) by simp
  have p2: "outRewClipPortion o2 = (if rews \<noteq> [] then clip_portion rews returnStd c2 else 0)"
    using Compute_portion [OF o2] assms(1,2) by simp
  have "outRewClipPortion o2 \<le> outRewClipPortion o1"
    using clip_portion_mono [OF assms(3,4)] by (simp add: p1 p2)
  moreover have "0 \<le> outRewClipPortion o2"
    using clip_portion_nonneg [OF c2] by (simp add: p2)
  moreover have "(\<forall>r\<in>set rews. \<bar>r / returnStd\<bar> \<le> c2) \<longrightarrow> outRewClipPortion o2 = 0"
    using clip_portion_zero [OF c2] by (simp add: p2)
  ultimately show ?thesis using o2 by blast
qed


theorem GAE_clip_portion_monotone_witness:
  "\<exists>o1 o2. Compute [1, 2, 3] [NOT_TERMINAL, TRUNCATED, NORMAL] [1 / 2, 1 / 2, 1 / 2] (Some [7])
                (9 / 10) (1 / 2) 2 1 = Inr o1
          \<and> Compute [1, 2, 3] [NOT_TERMINAL, TRUNCATED, NORMAL] [1 / 2, 1 / 2, 1 / 2] (Some [7])
                (9 / 10) (1 / 2) 2 2 = Inr o2
          \<and> outRewClipPortion o1 = 1 / 6
          \<and> outRewClipPortion o2 \<le> outRewClipPortion o1
          \<and> outRewClipPortion o2 = 0"
proof -
  let ?ts = "[NOT_TERMINAL, TRUNCATED, NORMAL]"
  have ne: "[1, 2, 3 :: real] \<noteq> []" by simp
  have "truncs_match ?ts (Some [7]) (length [1, 2, 3 :: real])"
    by (simp add: truncs_match_def terminal_consts_distinct)
  then obtain o1 where o1: "Compute [1, 2, 3] ?ts [1 / 2, 1 / 2, 1 / 2] (Some [7])
                (9 / 10) (1 / 2) 2 1 = Inr o1"
    using Compute_Inr_iff [OF ne, of ?ts "[1 / 2, 1 / 2, 1 / 2]" "Some [7]" "9 / 10" "1 / 2" 2 1]
    by auto
  have p1: "outRewClipPortion o1 = 1 / 6"
    using Compute_portion [OF o1]
    by (simp add: clip_portion_def clip_if_def RS_CLAMP_def)
  have small: "\<forall>r\<in>set [1, 2, 3 :: real]. \<bar>r / 2\<bar> \<le> 2" by simp
  obtain o2 where "Compute [1, 2, 3] ?ts [1 / 2, 1 / 2, 1 / 2] (Some [7])
                (9 / 10) (1 / 2) 2 2 = Inr o2
          \<and> outRewClipPortion o2 \<le> outRewClipPortion o1 \<and> outRewClipPortion o2 = 0"
    using GAE_clip_portion_monotone [OF _ _ _ _ o1, of 2] small by auto
  then show ?thesis using o1 p1 by blast
qed



subsection \<open>ZeroSumReward: the two limits of team spirit\<close>

lemma team_sums_loop_eq:
  "length raw = length players \<Longrightarrow>
   team_sums_loop players raw ((c0, c1), (s0, s1)) =
     ((c0 + int (length (team_rewards BLUE players raw)),
       c1 + int (length (team_rewards ORANGE players raw))),
      (s0 + sum_list (team_rewards BLUE players raw),
       s1 + sum_list (team_rewards ORANGE players raw)))"
proof (induction players raw arbitrary: c0 c1 s0 s1 rule: list_induct2')
  case (4 t ts r rs)
  then show ?case by (cases t) (simp_all add: team_rewards_def)
qed (simp_all add: team_rewards_def)

lemma GetAllRewards_eq:
  assumes "length raw = length players"
  shows "GetAllRewards zs players raw =
     Inr (map2 (\<lambda>team r. r * (1 - teamSpirit zs) + avg_team_reward team players raw * teamSpirit zs
                             - avg_team_reward (opponent team) players raw * opponentScale zs)
            players raw,
          zs\<lparr>lastRewards := raw\<rparr>)"
proof -
  have avg0: "(if 0 < int (length (team_rewards BLUE players raw))
               then sum_list (team_rewards BLUE players raw)
                      / real_of_int (int (length (team_rewards BLUE players raw))) else 0)
              = avg_team_reward BLUE players raw"
    by (simp add: avg_team_reward_def)
  have avg1: "(if 0 < int (length (team_rewards ORANGE players raw))
               then sum_list (team_rewards ORANGE players raw)
                      / real_of_int (int (length (team_rewards ORANGE players raw))) else 0)
              = avg_team_reward ORANGE players raw"
    by (simp add: avg_team_reward_def)
  have f: "(\<lambda>team raw'.
              raw' * (1 - teamSpirit zs)
              + (if team_index team = 0 then avg_team_reward BLUE players raw
                 else avg_team_reward ORANGE players raw) * teamSpirit zs
              - (if team_index team = 0 then avg_team_reward ORANGE players raw
                 else avg_team_reward BLUE players raw) * opponentScale zs)
         = (\<lambda>team r. r * (1 - teamSpirit zs) + avg_team_reward team players raw * teamSpirit zs
                             - avg_team_reward (opponent team) players raw * opponentScale zs)"
  proof (intro ext)
    fix team :: Team and r :: real
    show "r * (1 - teamSpirit zs)
              + (if team_index team = 0 then avg_team_reward BLUE players raw
                 else avg_team_reward ORANGE players raw) * teamSpirit zs
              - (if team_index team = 0 then avg_team_reward ORANGE players raw
                 else avg_team_reward BLUE players raw) * opponentScale zs
         = r * (1 - teamSpirit zs) + avg_team_reward team players raw * teamSpirit zs
                             - avg_team_reward (opponent team) players raw * opponentScale zs"
      by (cases team) simp_all
  qed
  have loop: "team_sums_loop players raw ((0, 0), (0, 0)) =
     ((int (length (team_rewards BLUE players raw)),
       int (length (team_rewards ORANGE players raw))),
      (sum_list (team_rewards BLUE players raw),
       sum_list (team_rewards ORANGE players raw)))"
    using team_sums_loop_eq [OF assms, of 0 0 0 0] by (simp only: add_0)
  show ?thesis
    unfolding GetAllRewards_def loop Let_def prod.case avg0 avg1 f
    using assms by (simp only: not_True_eq_False if_False refl)
qed

text \<open>
  Claim C8. For every list of players and every raw reward vector of the child reward,
  \<^verbatim>\<open>ZeroSumReward::GetAllRewards\<close> with \<^verbatim>\<open>opponentScale = 1\<close> returns for each player \<^verbatim>\<open>i\<close>:
  with \<^verbatim>\<open>teamSpirit = 0\<close>, \<^verbatim>\<open>raw[i]\<close> minus the average raw reward of the opposing team; with
  \<^verbatim>\<open>teamSpirit = 1\<close>, the average raw reward of the player's team minus the average raw
  reward of the opposing team.
\<close>

theorem ZeroSumReward_GetAllRewards:
  assumes "length raw = length players" and "i < length players" and "opponentScale zs = 1"
  shows "\<exists>out zs'. GetAllRewards zs players raw = Inr (out, zs')
           \<and> length out = length players
           \<and> (teamSpirit zs = 0 \<longrightarrow>
                out ! i = raw ! i - avg_team_reward (opponent (players ! i)) players raw)
           \<and> (teamSpirit zs = 1 \<longrightarrow>
                out ! i = avg_team_reward (players ! i) players raw
                          - avg_team_reward (opponent (players ! i)) players raw)"
  using assms by (simp add: GetAllRewards_eq)

theorem ZeroSumReward_GetAllRewards_witness:
  "(\<exists>out zs'. GetAllRewards \<lparr>teamSpirit = 0, opponentScale = 1, lastRewards = []\<rparr>
                  [BLUE, ORANGE, BLUE, ORANGE] [1, 2, 3, 5] = Inr (out, zs')
            \<and> out ! 2 = 3 - 7 / 2)
   \<and> (\<exists>out zs'. GetAllRewards \<lparr>teamSpirit = 1, opponentScale = 1, lastRewards = []\<rparr>
                  [BLUE, ORANGE, BLUE, ORANGE] [1, 2, 3, 5] = Inr (out, zs')
            \<and> out ! 2 = 2 - 7 / 2)"
proof -
  let ?ps = "[BLUE, ORANGE, BLUE, ORANGE]"
  let ?raw = "[1, 2, 3, 5 :: real]"
  have len: "length ?raw = length ?ps" "2 < length ?ps" by simp_all
  have avg: "avg_team_reward ORANGE ?ps ?raw = 7 / 2" "avg_team_reward BLUE ?ps ?raw = 2"
    by (simp_all add: avg_team_reward_def team_rewards_def)
  have "\<exists>out zs'. GetAllRewards \<lparr>teamSpirit = 0, opponentScale = 1, lastRewards = []\<rparr> ?ps ?raw
                    = Inr (out, zs') \<and> out ! 2 = 3 - 7 / 2"
    using ZeroSumReward_GetAllRewards [OF len, of "\<lparr>teamSpirit = 0, opponentScale = 1, lastRewards = []\<rparr>"]
    by (auto simp add: avg)
  moreover have "\<exists>out zs'. GetAllRewards \<lparr>teamSpirit = 1, opponentScale = 1, lastRewards = []\<rparr> ?ps ?raw
                    = Inr (out, zs') \<and> out ! 2 = 2 - 7 / 2"
    using ZeroSumReward_GetAllRewards [OF len, of "\<lparr>teamSpirit = 1, opponentScale = 1, lastRewards = []\<rparr>"]
    by (auto simp add: avg)
  ultimately show ?thesis by blast
qed

subsection \<open>Learner: a trajectory is merged at most once per tick and is empty afterwards\<close>

lemma to_size_t_id: "0 \<le> m \<Longrightarrow> m < 2 ^ 31 \<Longrightarrow> to_size_t m = nat m"
proof -
  assume "0 \<le> m" "m < 2 ^ 31"
  moreover have "(2::int) ^ 31 \<le> 2 ^ 64" by simp
  ultimately have "m < 2 ^ 64" by linarith
  then show ?thesis using \<open>0 \<le> m\<close> by (simp add: to_size_t_def)
qed

lemma Clear_empty: "Clear (traj :: Trajectory) = empty_Trajectory"
  by (simp add: Clear_def empty_Trajectory_def)

lemma merge_player_eq:
  assumes "i < length curTerminals" "i < length (trajectories c)"
    and "0 \<le> maxEpisodeLength" "maxEpisodeLength < 2 ^ 31"
  shows "merge_player curTerminals obsRow maxEpisodeLength i c =
     Inr (if episode_ends curTerminals maxEpisodeLength (trajectories c) i
          then \<lparr>trajectories = (trajectories c)[i := empty_Trajectory],
                combinedTraj = Append (combinedTraj c)
                  (finished_traj curTerminals obsRow maxEpisodeLength (trajectories c) i)\<rparr>
          else c\<lparr>trajectories := (trajectories c)[i := step_recorded (trajectories c ! i)]\<rparr>)"
proof -
  have len: "to_size_t maxEpisodeLength \<le> Length (trajectories c ! i)
               \<longleftrightarrow> maxEpisodeLength \<le> int (Length (trajectories c ! i))"
    using assms(3,4) by (simp add: to_size_t_id nat_le_iff)
  have t0: "TRUNCATED \<noteq> (0 :: terminal)" by (simp add: TRUNCATED_def)
  show ?thesis
    using assms(1,2) t0
    by (auto simp add: merge_player_def episode_terminal_def Let_def len episode_ends_def
          finished_traj_def Clear_empty step_recorded_def)
qed

lemma episode_ends_update:
  "i \<noteq> j \<Longrightarrow> episode_ends ct m (trajs[j := x]) i = episode_ends ct m trajs i"
  by (simp add: episode_ends_def)

lemma finished_traj_update:
  "i \<noteq> j \<Longrightarrow> finished_traj ct row m (trajs[j := x]) i = finished_traj ct row m trajs i"
  by (simp add: finished_traj_def)

lemma merge_loop_eq:
  assumes "distinct idxs"
    and "\<forall>i\<in>set idxs. i < length curTerminals \<and> i < length (trajectories c)"
    and "0 \<le> maxEpisodeLength" "maxEpisodeLength < 2 ^ 31"
  shows "\<exists>c'. merge_loop curTerminals obsRow maxEpisodeLength idxs c = Inr c'
       \<and> length (trajectories c') = length (trajectories c)
       \<and> combinedTraj c' =
           foldl Append (combinedTraj c)
             (map (finished_traj curTerminals obsRow maxEpisodeLength (trajectories c))
                (filter (episode_ends curTerminals maxEpisodeLength (trajectories c)) idxs))
       \<and> (\<forall>i\<in>set idxs.
             trajectories c' ! i =
               (if episode_ends curTerminals maxEpisodeLength (trajectories c) i
                then empty_Trajectory else step_recorded (trajectories c ! i)))
       \<and> (\<forall>i. i \<notin> set idxs \<longrightarrow> trajectories c' ! i = trajectories c ! i)"
  using assms
proof (induction idxs arbitrary: c)
  case Nil
  then show ?case by simp
next
  case (Cons j rest)
  let ?E = "episode_ends curTerminals maxEpisodeLength"
  let ?F = "finished_traj curTerminals obsRow maxEpisodeLength"
  define c1 where "c1 =
     (if ?E (trajectories c) j
      then \<lparr>trajectories = (trajectories c)[j := empty_Trajectory],
            combinedTraj = Append (combinedTraj c) (?F (trajectories c) j)\<rparr>
      else c\<lparr>trajectories := (trajectories c)[j := step_recorded (trajectories c ! j)]\<rparr>)"
  have j: "j < length curTerminals" "j < length (trajectories c)" "j \<notin> set rest" "distinct rest"
    using Cons.prems by simp_all
  have step: "merge_player curTerminals obsRow maxEpisodeLength j c = Inr c1"
    unfolding c1_def using j(1,2) Cons.prems(3,4) by (rule merge_player_eq)
  obtain x where tr1: "trajectories c1 = (trajectories c)[j := x]"
    and xj: "x = (if ?E (trajectories c) j then empty_Trajectory
                  else step_recorded (trajectories c ! j))"
    by (simp add: c1_def)
  have ct1: "combinedTraj c1 =
      (if ?E (trajectories c) j then Append (combinedTraj c) (?F (trajectories c) j)
       else combinedTraj c)"
    by (simp add: c1_def)
  have range1: "\<forall>i\<in>set rest. i < length curTerminals \<and> i < length (trajectories c1)"
    using Cons.prems(2) by (simp add: tr1)
  obtain c' where c': "merge_loop curTerminals obsRow maxEpisodeLength rest c1 = Inr c'"
    and len: "length (trajectories c') = length (trajectories c1)"
    and comb: "combinedTraj c' =
           foldl Append (combinedTraj c1)
             (map (?F (trajectories c1)) (filter (?E (trajectories c1)) rest))"
    and upd: "\<forall>i\<in>set rest. trajectories c' ! i =
               (if ?E (trajectories c1) i then empty_Trajectory
                else step_recorded (trajectories c1 ! i))"
    and keep: "\<forall>i. i \<notin> set rest \<longrightarrow> trajectories c' ! i = trajectories c1 ! i"
    using Cons.IH [OF j(4) range1 Cons.prems(3,4)] by blast
  have neq: "i \<noteq> j" if "i \<in> set rest" for i
    using that j(3) by auto
  have Eeq: "?E (trajectories c1) i = ?E (trajectories c) i" if "i \<in> set rest" for i
    using neq [OF that] by (simp add: tr1 episode_ends_update)
  have Feq: "?F (trajectories c1) i = ?F (trajectories c) i" if "i \<in> set rest" for i
    using neq [OF that] by (simp add: tr1 finished_traj_update)
  have filt: "filter (?E (trajectories c1)) rest = filter (?E (trajectories c)) rest"
    by (rule filter_cong [OF refl]) (simp add: Eeq)
  have mapF: "map (?F (trajectories c1)) (filter (?E (trajectories c)) rest)
               = map (?F (trajectories c)) (filter (?E (trajectories c)) rest)"
    by (rule map_cong [OF refl]) (simp add: Feq)
  have 1: "merge_loop curTerminals obsRow maxEpisodeLength (j # rest) c = Inr c'"
    by (simp add: step c')
  have 2: "length (trajectories c') = length (trajectories c)"
    by (simp add: len tr1)
  have 3: "combinedTraj c' =
           foldl Append (combinedTraj c)
             (map (?F (trajectories c)) (filter (?E (trajectories c)) (j # rest)))"
    by (simp add: comb filt mapF ct1)
  have 4: "trajectories c' ! i =
               (if ?E (trajectories c) i then empty_Trajectory
                else step_recorded (trajectories c ! i))" if "i \<in> set (j # rest)" for i
  proof (cases "i = j")
    case True
    then have "trajectories c' ! i = trajectories c1 ! j" using keep j(3) by simp
    then show ?thesis using True j(2) by (simp add: tr1 xj)
  next
    case False
    then have i: "i \<in> set rest" using that by simp
    have "trajectories c' ! i =
            (if ?E (trajectories c1) i then empty_Trajectory
             else step_recorded (trajectories c1 ! i))"
      using upd i by blast
    moreover have "trajectories c1 ! i = trajectories c ! i" using False by (simp add: tr1)
    ultimately show ?thesis by (simp only: Eeq [OF i])
  qed
  have 5: "trajectories c' ! i = trajectories c ! i" if "i \<notin> set (j # rest)" for i
    using that keep by (simp add: tr1)
  show ?case using 1 2 3 4 5 by blast
qed


lemma list3_nth: "length xs = 3 \<Longrightarrow> xs = [xs ! 0, xs ! 1, xs ! 2]"
  by (auto simp add: length_Suc_conv numeral_3_eq_3)

lemma count_list_distinct:
  "distinct xs \<Longrightarrow> count_list xs i = (if i \<in> set xs then 1 else 0)"
  by (induction xs) auto

text \<open>
  Claim C6. In one tick of the collection loop, over the distinct agents of
  \<^verbatim>\<open>newPlayerIndices\<close> and with a maximum episode length in the range of a non-negative
  \<^verbatim>\<open>int\<close>, the rollout grows by the finished trajectories of exactly the agents whose
  terminal flag is non-zero or whose trajectory length has reached the maximum, each
  appended once and in order (no agent occurs twice among the merged ones); the trajectory
  of a merged agent is empty right after its merge and at the end of the tick, the others
  have the terminal 0 recorded, and agents outside \<^verbatim>\<open>newPlayerIndices\<close> are untouched.
\<close>

theorem trajectory_merged_at_most_once:
  assumes "distinct newPlayerIndices"
    and "\<forall>i\<in>set newPlayerIndices. i < length curTerminals \<and> i < length (trajectories c)"
    and "0 \<le> maxEpisodeLength" and "maxEpisodeLength < 2 ^ 31"
  shows "\<exists>c'. merge_loop curTerminals obsRow maxEpisodeLength newPlayerIndices c = Inr c'
       \<and> length (trajectories c') = length (trajectories c)
       \<and> combinedTraj c' =
           foldl Append (combinedTraj c)
             (map (finished_traj curTerminals obsRow maxEpisodeLength (trajectories c))
                (filter (episode_ends curTerminals maxEpisodeLength (trajectories c))
                   newPlayerIndices))
       \<and> (\<forall>i. count_list (filter (episode_ends curTerminals maxEpisodeLength (trajectories c))
                             newPlayerIndices) i
               = (if i \<in> set newPlayerIndices
                     \<and> episode_ends curTerminals maxEpisodeLength (trajectories c) i
                  then 1 else 0))
       \<and> (\<forall>i\<in>set newPlayerIndices.
             trajectories c' ! i =
               (if episode_ends curTerminals maxEpisodeLength (trajectories c) i
                then empty_Trajectory else step_recorded (trajectories c ! i)))
       \<and> (\<forall>i. i \<notin> set newPlayerIndices \<longrightarrow> trajectories c' ! i = trajectories c ! i)
       \<and> (\<forall>j\<in>set newPlayerIndices.
             \<exists>c1. merge_player curTerminals obsRow maxEpisodeLength j c = Inr c1
                \<and> (if episode_ends curTerminals maxEpisodeLength (trajectories c) j
                    then trajectories c1 ! j = empty_Trajectory
                       \<and> combinedTraj c1 =
                           Append (combinedTraj c)
                             (finished_traj curTerminals obsRow maxEpisodeLength (trajectories c) j)
                    else trajectories c1 ! j = step_recorded (trajectories c ! j)
                       \<and> combinedTraj c1 = combinedTraj c))"
proof -
  let ?E = "episode_ends curTerminals maxEpisodeLength (trajectories c)"
  have cnt: "\<forall>i. count_list (filter ?E newPlayerIndices) i
               = (if i \<in> set newPlayerIndices \<and> ?E i then 1 else 0)"
    using assms(1) by (simp add: count_list_distinct)
  have one: "\<forall>j\<in>set newPlayerIndices.
             \<exists>c1. merge_player curTerminals obsRow maxEpisodeLength j c = Inr c1
                \<and> (if ?E j
                    then trajectories c1 ! j = empty_Trajectory
                       \<and> combinedTraj c1 =
                           Append (combinedTraj c)
                             (finished_traj curTerminals obsRow maxEpisodeLength (trajectories c) j)
                    else trajectories c1 ! j = step_recorded (trajectories c ! j)
                       \<and> combinedTraj c1 = combinedTraj c)"
  proof
    fix j assume "j \<in> set newPlayerIndices"
    then have j: "j < length curTerminals" "j < length (trajectories c)" using assms(2) by auto
    show "\<exists>c1. merge_player curTerminals obsRow maxEpisodeLength j c = Inr c1
                \<and> (if ?E j
                    then trajectories c1 ! j = empty_Trajectory
                       \<and> combinedTraj c1 =
                           Append (combinedTraj c)
                             (finished_traj curTerminals obsRow maxEpisodeLength (trajectories c) j)
                    else trajectories c1 ! j = step_recorded (trajectories c ! j)
                       \<and> combinedTraj c1 = combinedTraj c)"
      using j by (simp add: merge_player_eq [OF j assms(3,4)])
  qed
  show ?thesis
    using merge_loop_eq [OF assms, of obsRow] cnt one by blast
qed

theorem trajectory_merged_at_most_once_witness:
  "\<exists>c'. merge_loop [0, NORMAL, 0] (\<lambda>i. [7]) 2 [0, 1, 2]
           \<lparr>trajectories =
              [empty_Trajectory\<lparr>traj_actions := [4]\<rparr>,
               empty_Trajectory\<lparr>traj_actions := [5]\<rparr>,
               empty_Trajectory\<lparr>traj_actions := [6, 6]\<rparr>],
            combinedTraj = empty_Trajectory\<rparr> = Inr c'
       \<and> trajectories c' =
           [empty_Trajectory\<lparr>traj_actions := [4], traj_terminals := [0]\<rparr>,
            empty_Trajectory, empty_Trajectory]
       \<and> traj_actions (combinedTraj c') = [5, 6, 6]
       \<and> traj_terminals (combinedTraj c') = [NORMAL, TRUNCATED]
       \<and> traj_nextStates (combinedTraj c') = [7]"
proof -
  let ?ts = "[empty_Trajectory\<lparr>traj_actions := [4]\<rparr>,
               empty_Trajectory\<lparr>traj_actions := [5]\<rparr>,
               empty_Trajectory\<lparr>traj_actions := [6, 6]\<rparr>]"
  let ?c = "\<lparr>trajectories = ?ts, combinedTraj = empty_Trajectory\<rparr>"
  let ?ct = "[0, NORMAL, 0] :: terminal list"
  have d: "distinct [0, 1, 2 :: nat]" by simp
  have m: "(0::int) \<le> 2" "(2::int) < 2 ^ 31" by simp_all
  have r: "\<forall>i\<in>set [0, 1, 2 :: nat]. i < length ?ct \<and> i < length (trajectories ?c)" by simp
  have E: "\<not> episode_ends ?ct 2 ?ts 0" "episode_ends ?ct 2 ?ts 1" "episode_ends ?ct 2 ?ts 2"
    by (simp_all add: episode_ends_def Length_def empty_Trajectory_def NORMAL_def)
  obtain c' where c': "merge_loop ?ct (\<lambda>i. [7]) 2 [0, 1, 2] ?c = Inr c'"
    and comb: "combinedTraj c' =
           foldl Append (combinedTraj ?c)
             (map (finished_traj ?ct (\<lambda>i. [7]) 2 (trajectories ?c))
                (filter (episode_ends ?ct 2 (trajectories ?c)) [0, 1, 2]))"
    and upd: "\<forall>i\<in>set [0, 1, 2 :: nat].
             trajectories c' ! i =
               (if episode_ends ?ct 2 (trajectories ?c) i
                then empty_Trajectory else step_recorded (trajectories ?c ! i))"
    and len: "length (trajectories c') = length (trajectories ?c)"
    using trajectory_merged_at_most_once [OF d r m, of "\<lambda>i. [7]"]
    by blast
  have t0: "trajectories c' ! 0 = empty_Trajectory\<lparr>traj_actions := [4], traj_terminals := [0]\<rparr>"
    using upd [rule_format, of 0] E(1) by (simp add: step_recorded_def empty_Trajectory_def)
  have t1: "trajectories c' ! 1 = empty_Trajectory"
    using upd [rule_format, of 1] E(2) by simp
  have t2: "trajectories c' ! 2 = empty_Trajectory"
    using upd [rule_format, of 2] E(3) by simp
  have "length (trajectories c') = 3" using len by simp
  then have "trajectories c' = [trajectories c' ! 0, trajectories c' ! 1, trajectories c' ! 2]"
    by (rule list3_nth)
  then have "trajectories c' =
           [empty_Trajectory\<lparr>traj_actions := [4], traj_terminals := [0]\<rparr>,
            empty_Trajectory, empty_Trajectory]"
    by (simp only: t0 t1 t2)
  moreover have "traj_actions (combinedTraj c') = [5, 6, 6]
       \<and> traj_terminals (combinedTraj c') = [NORMAL, TRUNCATED]
       \<and> traj_nextStates (combinedTraj c') = [7]"
    using E
    by (simp add: comb finished_traj_def Append_def empty_Trajectory_def Let_def
          terminal_consts_distinct NORMAL_def TRUNCATED_def)
  ultimately show ?thesis using c' by blast
qed

subsection \<open>PPOLearner: a failing minibatch skips the rest of its batch\<close>

declare minibatch_ranges.simps [simp del]

lemma ran_Nil: "ran b [] st = st"
  by (simp add: ran_def)

lemma ran_Cons:
  "ran b ((s, e) # done) st =
     ran b done (st\<lparr>numAccumulated := numAccumulated st + 1,
                    pendingGrads := pendingGrads st @ [(b, s, e)]\<rparr>)"
  by (simp add: ran_def)

lemma minibatch_loop_eq:
  assumes "0 < miniBatchSize"
  shows "minibatch_loop throws b miniBatchSize actual mbs st =
     Some (if batch_fails throws b (minibatch_ranges miniBatchSize actual mbs)
           then Inl (ran b (completed throws b (minibatch_ranges miniBatchSize actual mbs)) st)
           else Inr (ran b (completed throws b (minibatch_ranges miniBatchSize actual mbs)) st))"
proof (induction "nat (actual - mbs)" arbitrary: mbs st rule: less_induct)
  case less
  show ?case
  proof (cases "mbs < actual")
    case False
    then have "minibatch_ranges miniBatchSize actual mbs = []"
      by (subst minibatch_ranges.simps) simp
    then show ?thesis using False
      by (subst minibatch_loop.simps) (simp add: batch_fails_def completed_def ran_Nil)
  next
    case True
    let ?e = "min (mbs + miniBatchSize) actual"
    have rs: "minibatch_ranges miniBatchSize actual mbs =
                (mbs, ?e) # minibatch_ranges miniBatchSize actual (mbs + miniBatchSize)"
      using True assms by (subst minibatch_ranges.simps) simp
    show ?thesis
    proof (cases "throws b mbs ?e")
      case thr: True
      then show ?thesis using True
        by (subst minibatch_loop.simps)
           (simp add: rs fnRunMinibatch_def batch_fails_def completed_def ran_Nil)
    next
      case ok: False
      have lt: "nat (actual - (mbs + miniBatchSize)) < nat (actual - mbs)"
        using True assms by simp
      show ?thesis
        using True ok
        by (subst minibatch_loop.simps)
           (simp add: rs fnRunMinibatch_def less.hyps [OF lt] batch_fails_def completed_def
              ran_Cons)
    qed
  qed
qed

lemma learn_batch_eq:
  assumes "is_cpu \<or> 0 < miniBatchSize"
  shows "learn_batch throws is_cpu miniBatchSize b actual st =
     Some (let mbs = minibatches_of is_cpu miniBatchSize actual;
               st' = ran b (completed throws b mbs) st
           in if batch_fails throws b mbs then st'\<lparr>skipLog := skipLog st' @ [b]\<rparr>
              else st'\<lparr>optimSteps := optimSteps st' @ [pendingGrads st'], pendingGrads := []\<rparr>)"
proof (cases is_cpu)
  case True
  then show ?thesis
    by (simp add: learn_batch_def minibatches_of_def fnRunMinibatch_def batch_fails_def
          completed_def ran_def)
next
  case False
  then have "0 < miniBatchSize" using assms by simp
  then show ?thesis using False
    by (simp add: learn_batch_def minibatches_of_def minibatch_loop_eq Let_def)
qed

lemma learn_batches_eq:
  assumes "is_cpu \<or> 0 < miniBatchSize"
  shows "\<exists>st'. learn_batches throws is_cpu miniBatchSize b batches st = Some st'
           \<and> skipLog st' = skipLog st @ failing_batches throws is_cpu miniBatchSize b batches
           \<and> length (optimSteps st') + length (failing_batches throws is_cpu miniBatchSize b batches)
                = length (optimSteps st) + length batches"
proof (induction batches arbitrary: b st)
  case Nil
  then show ?case by (simp add: failing_batches_def)
next
  case (Cons actual rest)
  let ?mbs = "minibatches_of is_cpu miniBatchSize actual"
  let ?st1 = "ran b (completed throws b ?mbs) st"
  define st2 where "st2 = (if batch_fails throws b ?mbs then ?st1\<lparr>skipLog := skipLog ?st1 @ [b]\<rparr>
              else ?st1\<lparr>optimSteps := optimSteps ?st1 @ [pendingGrads ?st1], pendingGrads := []\<rparr>)"
  have step: "learn_batch throws is_cpu miniBatchSize b actual st = Some st2"
    by (simp add: learn_batch_eq [OF assms] Let_def st2_def)
  obtain st' where st': "learn_batches throws is_cpu miniBatchSize (b + 1) rest st2 = Some st'"
    and log: "skipLog st' = skipLog st2 @ failing_batches throws is_cpu miniBatchSize (b + 1) rest"
    and opt: "length (optimSteps st') + length (failing_batches throws is_cpu miniBatchSize (b + 1) rest)
                = length (optimSteps st2) + length rest"
    using Cons.IH [of "b + 1" st2] by blast
  have upt: "[b..<b + length (actual # rest)] = b # [b + 1..<b + 1 + length rest]"
    by (subst upt_rec) simp
  have fb: "failing_batches throws is_cpu miniBatchSize b (actual # rest) =
      (if batch_fails throws b ?mbs then [b] else [])
      @ failing_batches throws is_cpu miniBatchSize (b + 1) rest"
    unfolding failing_batches_def upt by simp
  have log2: "skipLog st2 = skipLog st @ (if batch_fails throws b ?mbs then [b] else [])"
    by (simp add: st2_def ran_def)
  have opt2: "length (optimSteps st2) + (if batch_fails throws b ?mbs then 1 else 0)
                = length (optimSteps st) + 1"
    by (simp add: st2_def ran_def)
  have 1: "learn_batches throws is_cpu miniBatchSize b (actual # rest) st = Some st'"
    using st' by (simp add: step)
  have 2: "skipLog st' = skipLog st @ failing_batches throws is_cpu miniBatchSize b (actual # rest)"
    by (simp add: log log2 fb)
  have 3: "length (optimSteps st') + length (failing_batches throws is_cpu miniBatchSize b (actual # rest))
                = length (optimSteps st) + length (actual # rest)"
    using opt opt2 by (cases "batch_fails throws b ?mbs") (simp_all add: fb)
  show ?case using 1 2 3 by blast
qed


text \<open>
  Claim C4, as amended. With a positive \<^verbatim>\<open>miniBatchSize\<close> (or on the CPU) an exception
  raised while a minibatch is processed never aborts the loop over the batches: it is
  caught and logged once for its batch; of that batch only the minibatches before the
  failing one have run, the later ones and the batch's optimizer step are skipped; and the
  loop goes on with the next batch, every batch without a failing minibatch getting its
  optimizer step. On the CPU a batch is a single minibatch.
\<close>

theorem Learn_minibatch_exception:
  assumes "is_cpu \<or> 0 < miniBatchSize"
  shows "(\<exists>st'. learn_batches throws is_cpu miniBatchSize b batches st = Some st'
            \<and> skipLog st' = skipLog st @ failing_batches throws is_cpu miniBatchSize b batches
            \<and> length (optimSteps st') + length (failing_batches throws is_cpu miniBatchSize b batches)
                 = length (optimSteps st) + length batches)
       \<and> (\<exists>st1. learn_batch throws is_cpu miniBatchSize b actual st = Some st1
            \<and> numAccumulated st1 = numAccumulated st
                 + length (completed throws b (minibatches_of is_cpu miniBatchSize actual))
            \<and> (if batch_fails throws b (minibatches_of is_cpu miniBatchSize actual)
                then skipLog st1 = skipLog st @ [b] \<and> optimSteps st1 = optimSteps st
                else skipLog st1 = skipLog st
                   \<and> length (optimSteps st1) = length (optimSteps st) + 1))
       \<and> (is_cpu \<longrightarrow> minibatches_of is_cpu miniBatchSize actual = [(0, actual)])"
proof -
  have 1: "\<exists>st'. learn_batches throws is_cpu miniBatchSize b batches st = Some st'
            \<and> skipLog st' = skipLog st @ failing_batches throws is_cpu miniBatchSize b batches
            \<and> length (optimSteps st') + length (failing_batches throws is_cpu miniBatchSize b batches)
                 = length (optimSteps st) + length batches"
    by (rule learn_batches_eq [OF assms])
  have 2: "\<exists>st1. learn_batch throws is_cpu miniBatchSize b actual st = Some st1
            \<and> numAccumulated st1 = numAccumulated st
                 + length (completed throws b (minibatches_of is_cpu miniBatchSize actual))
            \<and> (if batch_fails throws b (minibatches_of is_cpu miniBatchSize actual)
                then skipLog st1 = skipLog st @ [b] \<and> optimSteps st1 = optimSteps st
                else skipLog st1 = skipLog st
                   \<and> length (optimSteps st1) = length (optimSteps st) + 1)"
    by (simp add: learn_batch_eq [OF assms] Let_def ran_def)
  have 3: "is_cpu \<longrightarrow> minibatches_of is_cpu miniBatchSize actual = [(0, actual)]"
    by (simp add: minibatches_of_def)
  show ?thesis using 1 2 3 by blast
qed

theorem Learn_minibatch_exception_witness:
  "\<exists>st'. learn_batches (\<lambda>b s e. b = 0 \<and> s = 2) False 2 0 [6, 4]
            \<lparr>pendingGrads = [], optimSteps = [], skipLog = [], numAccumulated = 0\<rparr> = Some st'
        \<and> skipLog st' = [0] \<and> length (optimSteps st') = 1"
proof -
  let ?th = "\<lambda>(b::nat) (s::int) (e::int). b = 0 \<and> s = 2"
  let ?st = "\<lparr>pendingGrads = [], optimSteps = [], skipLog = [], numAccumulated = 0\<rparr>"
  have r6: "minibatch_ranges 2 6 0 = [(0, 2), (2, 4), (4, 6)]"
    by (simp add: minibatch_ranges.simps)
  have r4: "minibatch_ranges 2 4 0 = [(0, 2), (2, 4)]"
    by (simp add: minibatch_ranges.simps)
  have fb: "failing_batches ?th False 2 0 [6, 4] = [0]"
    by (simp add: failing_batches_def minibatches_of_def batch_fails_def r6 r4 upt_rec)
  have pos: "False \<or> (0::int) < 2" by simp
  show ?thesis
    using Learn_minibatch_exception [OF pos, of ?th 0 "[6, 4]" ?st 0]
    by (auto simp add: fb)
qed

text \<open>
  Claim C4 as stated has the later minibatches of the same batch still processed. With
  batches of two minibatches on a GPU and the first one throwing, the second one, which
  does not throw, never runs: the counter and the gradients stay as they were.
\<close>

theorem Learn_later_minibatch_skipped_counterexample:
  "\<not> first_minibatch_throws 0 2 4
   \<and> learn_batches first_minibatch_throws False 2 0 [4]
        \<lparr>pendingGrads = [], optimSteps = [], skipLog = [], numAccumulated = 0\<rparr>
      = Some \<lparr>pendingGrads = [], optimSteps = [], skipLog = [0], numAccumulated = 0\<rparr>"
  by (simp add: learn_batch_def minibatch_loop.simps fnRunMinibatch_def
        first_minibatch_throws_def)

subsection \<open>EnvSet: inconsistent widths fail the construction\<close>

lemma SetFromPtr_ok:
  assumes "table_ok n w dl" "idx0 < n" "length src = w"
  shows "\<exists>dl'. SetFromPtr dl idx0 src = Inr dl' \<and> table_ok n w dl'"
proof -
  have "idx0 * w + w \<le> n * w"
  proof -
    have "Suc idx0 * w \<le> n * w" using assms(2) by (intro mult_le_mono1) simp
    then show ?thesis by simp
  qed
  then show ?thesis using assms
    by (auto simp add: SetFromPtr_def table_ok_def)
qed

lemma SetFromPtr_mismatch:
  "length src \<noteq> size1 dl \<Longrightarrow> SetFromPtr dl idx0 src = Inl FatalError"
  by (simp add: SetFromPtr_def)

lemma reset_players_ok:
  assumes "state_ok n w a starts st" "\<forall>i\<in>set is. start + i < n" "\<forall>i\<in>set is. player_ok w a env i"
  shows "\<exists>st'. reset_players env start is st = Inr st' \<and> state_ok n w a starts st'"
  using assms
proof (induction "is" arbitrary: st)
  case Nil
  then show ?case by simp
next
  case (Cons i rest)
  have i: "start + i < n" "length (BuildObs env i) = w" "length (GetActionMask env i) = a"
    using Cons.prems(2,3) by (simp_all add: player_ok_def)
  obtain obs' where o: "SetFromPtr (obs st) (start + i) (BuildObs env i) = Inr obs'"
    "table_ok n w obs'"
    using SetFromPtr_ok [of n w "obs st" "start + i" "BuildObs env i"] Cons.prems(1) i
    by (auto simp add: state_ok_def)
  obtain masks' where m: "SetFromPtr (actionMasks st) (start + i) (GetActionMask env i) = Inr masks'"
    "table_ok n a masks'"
    using SetFromPtr_ok [of n a "actionMasks st" "start + i" "GetActionMask env i"] Cons.prems(1) i
    by (auto simp add: state_ok_def)
  have "state_ok n w a starts (st\<lparr>obs := obs', actionMasks := masks'\<rparr>)"
    using Cons.prems(1) o(2) m(2) by (simp add: state_ok_def)
  then show ?case using Cons.IH Cons.prems(2,3) by (simp add: o(1) m(1))
qed

lemma reset_players_mismatch:
  assumes "state_ok n w a starts st" "\<forall>i\<in>set is. start + i < n"
    and "\<exists>i\<in>set is. \<not> player_ok w a env i"
  shows "reset_players env start is st = Inl FatalError"
  using assms
proof (induction "is" arbitrary: st)
  case Nil
  then show ?case by simp
next
  case (Cons i rest)
  have sz: "size1 (obs st) = w" "size1 (actionMasks st) = a"
    using Cons.prems(1) by (simp_all add: state_ok_def table_ok_def)
  show ?case
  proof (cases "length (BuildObs env i) = w")
    case False
    then show ?thesis by (simp add: SetFromPtr_mismatch sz)
  next
    case True
    obtain obs' where o: "SetFromPtr (obs st) (start + i) (BuildObs env i) = Inr obs'"
      "table_ok n w obs'"
      using SetFromPtr_ok [of n w "obs st" "start + i" "BuildObs env i"] Cons.prems(1,2) True
      by (auto simp add: state_ok_def)
    show ?thesis
    proof (cases "length (GetActionMask env i) = a")
      case False
      then show ?thesis by (simp add: o(1) SetFromPtr_mismatch sz)
    next
      case mask: True
      obtain masks' where m: "SetFromPtr (actionMasks st) (start + i) (GetActionMask env i) = Inr masks'"
        "table_ok n a masks'"
        using SetFromPtr_ok [of n a "actionMasks st" "start + i" "GetActionMask env i"]
          Cons.prems(1,2) mask
        by (auto simp add: state_ok_def)
      have ok: "state_ok n w a starts (st\<lparr>obs := obs', actionMasks := masks'\<rparr>)"
        using Cons.prems(1) o(2) m(2) by (simp add: state_ok_def)
      have "\<exists>i\<in>set rest. \<not> player_ok w a env i"
        using Cons.prems(3) True mask by (simp add: player_ok_def)
      then have "reset_players env start rest (st\<lparr>obs := obs', actionMasks := masks'\<rparr>)
                   = Inl FatalError"
        using Cons.IH [OF ok] Cons.prems(2) by simp
      then show ?thesis by (simp add: o(1) m(1))
    qed
  qed
qed

lemma start_bound:
  assumes "k < length arenas" "i < numCars (arenas ! k)"
  shows "starts_of arenas ! k + i < sum_list (map numCars arenas)"
proof -
  have "arenas = take k arenas @ arenas ! k # drop (Suc k) arenas"
    using assms(1) by (simp add: id_take_nth_drop)
  then have "sum_list (map numCars arenas) =
      sum_list (map numCars (take k arenas)) + numCars (arenas ! k)
        + sum_list (map numCars (drop (Suc k) arenas))"
    by (metis append_Cons append_Nil map_append list.simps(9) sum_list.append sum_list.Cons add.assoc)
  then show ?thesis using assms by (simp add: starts_of_def)
qed

lemma env_ok_iff:
  "widths_match arena0 env \<longleftrightarrow>
     (\<forall>i\<in>set [0..<numCars env]. player_ok (length (BuildObs arena0 0)) (GetActionAmount arena0) env i)"
  by (simp add: widths_match_def player_ok_def list_all_iff)

lemma reset_jobs_ok:
  assumes "state_ok (sum_list (map numCars arenas)) w a (starts_of arenas) st"
    and "\<forall>k\<in>set ks. k < length arenas"
    and "\<forall>k\<in>set ks. \<forall>i\<in>set [0..<numCars (arenas ! k)]. player_ok w a (arenas ! k) i"
  shows "\<exists>st'. reset_jobs arenas ks st = Inr st'
           \<and> state_ok (sum_list (map numCars arenas)) w a (starts_of arenas) st'"
  using assms
proof (induction ks arbitrary: st)
  case Nil
  then show ?case by simp
next
  case (Cons k rest)
  have k: "k < length arenas" using Cons.prems(2) by simp
  have st: "arenaPlayerStartIdx st = starts_of arenas"
    using Cons.prems(1) by (simp add: state_ok_def)
  have len: "length (starts_of arenas) = length arenas" by (simp add: starts_of_def)
  have bound: "\<forall>i\<in>set [0..<numCars (arenas ! k)].
                 starts_of arenas ! k + i < sum_list (map numCars arenas)"
    using start_bound [OF k] by simp
  obtain st1 where st1: "reset_players (arenas ! k) (starts_of arenas ! k)
                           [0..<numCars (arenas ! k)] st = Inr st1"
    and ok1: "state_ok (sum_list (map numCars arenas)) w a (starts_of arenas) st1"
  proof -
    have pk: "\<forall>i\<in>set [0..<numCars (arenas ! k)]. player_ok w a (arenas ! k) i"
      using Cons.prems(3) by simp
    show ?thesis using reset_players_ok [OF Cons.prems(1) bound pk] that by blast
  qed
  have "ResetArena arenas k st = Inr st1"
    using k by (simp add: ResetArena_def st len st1)
  then show ?case using Cons.IH [OF ok1] Cons.prems(2,3) by simp
qed

lemma reset_jobs_mismatch:
  assumes "state_ok (sum_list (map numCars arenas)) w a (starts_of arenas) st"
    and "\<forall>k\<in>set ks. k < length arenas"
    and "\<exists>k\<in>set ks. \<exists>i\<in>set [0..<numCars (arenas ! k)]. \<not> player_ok w a (arenas ! k) i"
  shows "reset_jobs arenas ks st = Inl FatalError"
  using assms
proof (induction ks arbitrary: st)
  case Nil
  then show ?case by simp
next
  case (Cons k rest)
  have k: "k < length arenas" using Cons.prems(2) by simp
  have st: "arenaPlayerStartIdx st = starts_of arenas"
    using Cons.prems(1) by (simp add: state_ok_def)
  have len: "length (starts_of arenas) = length arenas" by (simp add: starts_of_def)
  have bound: "\<forall>i\<in>set [0..<numCars (arenas ! k)].
                 starts_of arenas ! k + i < sum_list (map numCars arenas)"
    using start_bound [OF k] by simp
  have RA: "ResetArena arenas k st = reset_players (arenas ! k) (starts_of arenas ! k)
                           [0..<numCars (arenas ! k)] st"
    using k by (simp add: ResetArena_def st len)
  show ?case
  proof (cases "\<exists>i\<in>set [0..<numCars (arenas ! k)]. \<not> player_ok w a (arenas ! k) i")
    case True
    then have "ResetArena arenas k st = Inl FatalError"
      unfolding RA by (intro reset_players_mismatch [OF Cons.prems(1) bound])
    then show ?thesis by simp
  next
    case False
    then have pk: "\<forall>i\<in>set [0..<numCars (arenas ! k)]. player_ok w a (arenas ! k) i"
      by blast
    obtain st1 where st1: "reset_players (arenas ! k) (starts_of arenas ! k)
                           [0..<numCars (arenas ! k)] st = Inr st1"
      and ok1: "state_ok (sum_list (map numCars arenas)) w a (starts_of arenas) st1"
      using reset_players_ok [OF Cons.prems(1) bound pk] by blast
    have "\<exists>k\<in>set rest. \<exists>i\<in>set [0..<numCars (arenas ! k)]. \<not> player_ok w a (arenas ! k) i"
      using Cons.prems(3) False by auto
    then have "reset_jobs arenas rest st1 = Inl FatalError"
      using Cons.IH [OF ok1] Cons.prems(2) by simp
    then show ?thesis by (simp add: RA st1)
  qed
qed


lemma EnvSet_ctor_eq:
  assumes "0 < tickSkip" "0 \<le> actionDelay" "actionDelay \<le> tickSkip"
    and "arenas = arena0 # rest" "0 < numCars arena0"
  shows "EnvSet_ctor tickSkip actionDelay arenas =
           reset_jobs arenas [0..<length arenas]
             ((Resize arenas)\<lparr>obs := new_DimList2 (sum_list (map numCars arenas))
                                        (length (BuildObs arena0 0)),
                               actionMasks := new_DimList2 (sum_list (map numCars arenas))
                                        (GetActionAmount arena0)\<rparr>)"
  using assms by (simp add: EnvSet_ctor_def Let_def Resize_def)

lemma initial_state_ok:
  "state_ok (sum_list (map numCars arenas)) w a (starts_of arenas)
     ((Resize arenas)\<lparr>obs := new_DimList2 (sum_list (map numCars arenas)) w,
                       actionMasks := new_DimList2 (sum_list (map numCars arenas)) a\<rparr>)"
  by (simp add: state_ok_def table_ok_def new_DimList2_def Resize_def starts_of_def)

text \<open>
  Claim C2. With a valid tick configuration and an arena 0 that has a car, constructing an
  \<^verbatim>\<open>EnvSet\<close> in which some arena has a player whose observation width or action-mask width
  differs from the width probed from arena 0 ends in the fatal error of the assertion in
  \<^verbatim>\<open>SetFromPtr\<close>; the construction completes, with tables of the probed widths and one row
  per agent, only when all arenas agree with arena 0.
\<close>

theorem EnvSet_ctor_fails_fast:
  assumes "0 < tickSkip" and "0 \<le> actionDelay" and "actionDelay \<le> tickSkip"
    and "arenas = arena0 # rest" and "0 < numCars arena0"
  shows "(list_ex (\<lambda>env. \<not> widths_match arena0 env) arenas \<longrightarrow>
            EnvSet_ctor tickSkip actionDelay arenas = Inl FatalError)
       \<and> (list_all (widths_match arena0) arenas \<longrightarrow>
            (\<exists>st. EnvSet_ctor tickSkip actionDelay arenas = Inr st
                \<and> size0 (obs st) = sum_list (map numCars arenas)
                \<and> size1 (obs st) = length (BuildObs arena0 0)
                \<and> size0 (actionMasks st) = sum_list (map numCars arenas)
                \<and> size1 (actionMasks st) = GetActionAmount arena0))"
proof -
  let ?w = "length (BuildObs arena0 0)"
  let ?a = "GetActionAmount arena0"
  let ?n = "sum_list (map numCars arenas)"
  let ?st0 = "(Resize arenas)\<lparr>obs := new_DimList2 ?n ?w, actionMasks := new_DimList2 ?n ?a\<rparr>"
  note eq = EnvSet_ctor_eq [OF assms]
  have ok0: "state_ok ?n ?w ?a (starts_of arenas) ?st0" by (rule initial_state_ok)
  have ks: "\<forall>k\<in>set [0..<length arenas]. k < length arenas" by simp
  have fail: "EnvSet_ctor tickSkip actionDelay arenas = Inl FatalError"
    if ex: "list_ex (\<lambda>env. \<not> widths_match arena0 env) arenas"
  proof -
    obtain env where env: "env \<in> set arenas" "\<not> widths_match arena0 env"
      using ex by (auto simp add: list_ex_iff)
    then obtain k where k: "k < length arenas" "arenas ! k = env"
      by (auto simp add: in_set_conv_nth)
    have "\<exists>i\<in>set [0..<numCars (arenas ! k)]. \<not> player_ok ?w ?a (arenas ! k) i"
      using env(2) k(2) by (simp add: env_ok_iff)
    then have "\<exists>k\<in>set [0..<length arenas].
                 \<exists>i\<in>set [0..<numCars (arenas ! k)]. \<not> player_ok ?w ?a (arenas ! k) i"
      using k(1) by auto
    then show ?thesis
      unfolding eq by (rule reset_jobs_mismatch [OF ok0 ks])
  qed
  have succeed: "\<exists>st. EnvSet_ctor tickSkip actionDelay arenas = Inr st
                \<and> size0 (obs st) = ?n \<and> size1 (obs st) = ?w
                \<and> size0 (actionMasks st) = ?n \<and> size1 (actionMasks st) = ?a"
    if all: "list_all (widths_match arena0) arenas"
  proof -
    have "\<forall>k\<in>set [0..<length arenas].
            \<forall>i\<in>set [0..<numCars (arenas ! k)]. player_ok ?w ?a (arenas ! k) i"
      using all by (auto simp add: list_all_iff env_ok_iff)
    then obtain st where "reset_jobs arenas [0..<length arenas] ?st0 = Inr st"
      "state_ok ?n ?w ?a (starts_of arenas) st"
      using reset_jobs_ok [OF ok0 ks] by blast
    then show ?thesis unfolding eq by (auto simp add: state_ok_def table_ok_def)
  qed
  show ?thesis using fail succeed by blast
qed

theorem EnvSet_ctor_fails_fast_witness:
  "EnvSet_ctor 8 7 [example_arena 4, example_arena 4, example_arena 5] = Inl FatalError
   \<and> (\<exists>st. EnvSet_ctor 8 7 [example_arena 4, example_arena 4] = Inr st
           \<and> size0 (obs st) = 4 \<and> size1 (obs st) = 4 \<and> size1 (actionMasks st) = 3)"
proof -
  have cfg: "(0::int) < 8" "(0::int) \<le> 7" "(7::int) \<le> 8" by simp_all
  have cars: "0 < numCars (example_arena 4)" by (simp add: example_arena_def)
  have m: "widths_match (example_arena 4) (example_arena 4)"
    "\<not> widths_match (example_arena 4) (example_arena 5)"
    by (auto simp add: widths_match_def example_arena_def list_all_iff intro: exI [of _ 0])
  have "EnvSet_ctor 8 7 [example_arena 4, example_arena 4, example_arena 5] = Inl FatalError"
    using EnvSet_ctor_fails_fast [OF cfg refl cars, of "[example_arena 4, example_arena 5]"] m
    by simp
  moreover have "\<exists>st. EnvSet_ctor 8 7 [example_arena 4, example_arena 4] = Inr st
           \<and> size0 (obs st) = 4 \<and> size1 (obs st) = 4 \<and> size1 (actionMasks st) = 3"
    using EnvSet_ctor_fails_fast [OF cfg refl cars, of "[example_arena 4]"] m
    by (auto simp add: example_arena_def)
  ultimately show ?thesis by blast
qed

end
